theory Spec2Isabelle
  imports Complex_Main
begin

section \<open>Python exceptions\<close>

text \<open>
  Exceptions are values. Only the classes that the two modules raise themselves, or that
  the libraries they call raise on the paths followed here, are listed.
  \<open>KeyboardInterrupt\<close> stands for the classes outside \<open>Exception\<close>.
\<close>

datatype exn =
    ValueError
  | TypeError
  | AttributeError
  | KeyError
  | UnicodeEncodeError
  | OSError
  | FileExistsError
  | FileNotFoundError
  | PermissionError
  | RecursionError
  | WebDriverException
  | KeyboardInterrupt

fun exn_class :: "exn \<Rightarrow> string" where
  "exn_class ValueError = ''ValueError''"
| "exn_class TypeError = ''TypeError''"
| "exn_class AttributeError = ''AttributeError''"
| "exn_class KeyError = ''KeyError''"
| "exn_class UnicodeEncodeError = ''UnicodeEncodeError''"
| "exn_class OSError = ''OSError''"
| "exn_class FileExistsError = ''FileExistsError''"
| "exn_class FileNotFoundError = ''FileNotFoundError''"
| "exn_class PermissionError = ''PermissionError''"
| "exn_class RecursionError = ''RecursionError''"
| "exn_class WebDriverException = ''WebDriverException''"
| "exn_class KeyboardInterrupt = ''KeyboardInterrupt''"

text \<open>\<open>except Exception\<close> catches every class but those outside \<open>Exception\<close>.\<close>

fun is_Exception :: "exn \<Rightarrow> bool" where
  "is_Exception KeyboardInterrupt = False"
| "is_Exception _ = True"

text \<open>\<open>except OSError\<close> catches \<open>OSError\<close> and its subclasses.\<close>

fun is_OSError :: "exn \<Rightarrow> bool" where
  "is_OSError OSError = True"
| "is_OSError FileExistsError = True"
| "is_OSError FileNotFoundError = True"
| "is_OSError PermissionError = True"
| "is_OSError _ = False"

section \<open>python\_debug\_logging.py: the logging facade\<close>

subsection \<open>Levels, time stamps, records\<close>

datatype level = DEBUG | INFO | WARNING | ERROR | CRITICAL

text \<open>The numeric values of the standard library's level constants; \<open>NOTSET\<close> is 0.\<close>

fun levelno :: "level \<Rightarrow> nat" where
  "levelno DEBUG = 10"
| "levelno INFO = 20"
| "levelno WARNING = 30"
| "levelno ERROR = 40"
| "levelno CRITICAL = 50"

definition NOTSET :: nat where
  "NOTSET = 0"

fun levelname :: "level \<Rightarrow> string" where
  "levelname DEBUG = ''DEBUG''"
| "levelname INFO = ''INFO''"
| "levelname WARNING = ''WARNING''"
| "levelname ERROR = ''ERROR''"
| "levelname CRITICAL = ''CRITICAL''"

text \<open>The local time read by \<open>datetime.now()\<close> and stored in a record as \<open>created\<close>.\<close>

record datetime =
  year :: nat
  month :: nat
  day :: nat
  hour :: nat
  minute :: nat
  second :: nat
  msecs :: nat

definition newline :: char where
  "newline = CHR 0x0A"

fun str_nat :: "nat \<Rightarrow> string" where
  "str_nat n = (if n < 10 then [''0123456789'' ! n]
                else str_nat (n div 10) @ [''0123456789'' ! (n mod 10)])"

declare str_nat.simps [simp del]

definition zfill :: "nat \<Rightarrow> string \<Rightarrow> string" where
  "zfill w s = replicate (w - length s) (CHR ''0'') @ s"

text \<open>
  The \<open>strftime\<close> directives that occur in the module: \<open>%Y %m %d %H %M %S\<close> and
  literal text.
\<close>

datatype tfield = TY | Tm | Td | TH | TM | TS | TLit string

fun strftime_field :: "tfield \<Rightarrow> datetime \<Rightarrow> string" where
  "strftime_field TY t = str_nat (year t)"
| "strftime_field Tm t = zfill 2 (str_nat (month t))"
| "strftime_field Td t = zfill 2 (str_nat (day t))"
| "strftime_field TH t = zfill 2 (str_nat (hour t))"
| "strftime_field TM t = zfill 2 (str_nat (minute t))"
| "strftime_field TS t = zfill 2 (str_nat (second t))"
| "strftime_field (TLit s) t = s"

definition strftime :: "tfield list \<Rightarrow> datetime \<Rightarrow> string" where
  "strftime fs t = concat (map (\<lambda>f. strftime_field f t) fs)"

text \<open>
  A \<open>LogRecord\<close>. \<open>r_exc_text\<close> is \<open>None\<close> when the call passed no \<open>exc_info\<close>,
  and the formatted exception text otherwise.
\<close>

record log_record =
  r_name :: string
  r_level :: level
  r_message :: string
  r_funcName :: string
  r_lineno :: nat
  r_created :: datetime
  r_exc_text :: "string option"

subsection \<open>Formatters and handlers\<close>

text \<open>
  A format string such as \<open>'%(asctime)s [%(levelname)s] %(message)s'\<close> is the list of its
  fields; \<open>datefmt\<close> is \<open>None\<close> when the formatter is built without one.
\<close>

datatype ffield = Asctime | Levelname | FuncName | Lineno | Message | FLit string

record formatter =
  fmt :: "ffield list"
  datefmt :: "tfield list option"

text \<open>\<open>Formatter.formatTime\<close>: the default is \<open>'%Y-%m-%d %H:%M:%S'\<close> followed by
  \<open>',%03d'\<close> of the milliseconds.\<close>

definition default_time_format :: "tfield list" where
  "default_time_format = [TY, TLit ''-'', Tm, TLit ''-'', Td, TLit '' '', TH, TLit '':'', TM, TLit '':'', TS]"

definition formatTime :: "formatter \<Rightarrow> log_record \<Rightarrow> string" where
  "formatTime f r =
     (case datefmt f of
        Some df \<Rightarrow> strftime df (r_created r)
      | None \<Rightarrow> strftime default_time_format (r_created r) @ '','' @ zfill 3 (str_nat (msecs (r_created r))))"

fun format_field :: "formatter \<Rightarrow> log_record \<Rightarrow> ffield \<Rightarrow> string" where
  "format_field f r Asctime = formatTime f r"
| "format_field f r Levelname = levelname (r_level r)"
| "format_field f r FuncName = r_funcName r"
| "format_field f r Lineno = str_nat (r_lineno r)"
| "format_field f r Message = r_message r"
| "format_field f r (FLit s) = s"

definition formatMessage :: "formatter \<Rightarrow> log_record \<Rightarrow> string" where
  "formatMessage f r = concat (map (format_field f r) (fmt f))"

text \<open>
  \<open>Formatter.format\<close>: the formatted message and, when the record carries exception text,
  a line break (unless the message already ends in one) and that text.
\<close>

definition format_record :: "formatter \<Rightarrow> log_record \<Rightarrow> string" where
  "format_record f r =
     (let s = formatMessage f r in
      case r_exc_text r of
        None \<Rightarrow> s
      | Some t \<Rightarrow>
          if t = [] then s
          else (if s \<noteq> [] \<and> last s = newline then s else s @ [newline]) @ t)"

datatype stream = Stdout | Stderr | File_stream string

record handler =
  h_level :: nat
  h_stream :: stream
  h_encoding :: "string option"
  h_formatter :: formatter

text \<open>
  A logger is the root logger or the logger of a name; \<open>ref_name\<close> is its attribute
  \<open>name\<close>. \<open>l_parent\<close> is its attribute \<open>parent\<close>, which only the root logger lacks.
\<close>

datatype logger_ref = Root | Named string

fun ref_name :: "logger_ref \<Rightarrow> string" where
  "ref_name Root = ''root''"
| "ref_name (Named n) = n"

record logger =
  l_level :: nat
  l_handlers :: "handler list"
  l_parent :: "logger_ref option"
  l_propagate :: bool

text \<open>\<open>Logger.__init__\<close>.\<close>

definition new_logger :: logger where
  "new_logger = \<lparr>l_level = NOTSET, l_handlers = [], l_parent = None, l_propagate = True\<rparr>"

text \<open>An entry of the manager's \<open>loggerDict\<close>: a logger, or a \<open>PlaceHolder\<close> with the names
  of the loggers in its \<open>loggerMap\<close>, in the order they were added.\<close>

datatype dict_entry = Is_logger logger | PlaceHolder "string list"

subsection \<open>The process state the module acts on\<close>

datatype fs_entry = Missing | Directory | Regular_file

text \<open>
  \<open>root_logger\<close> is \<open>logging.root\<close> and \<open>loggerDict\<close> the manager's table of the named
  loggers. \<open>logs_dir\<close> is what the path \<open>logs\<close> is in the working directory; \<open>files\<close>
  holds the text of the files that exist, by path. No logger is disabled, no filter is
  attached and \<open>logging.disable\<close> has not been called, as the module leaves it.
\<close>

record log_world =
  root_logger :: logger
  loggerDict :: "string \<Rightarrow> dict_entry option"
  logs_dir :: fs_entry
  files :: "string \<Rightarrow> string option"
  stdout :: string
  stderr :: string

text \<open>
  What the environment decides: whether formatting or writing a record on a handler
  raises; whether an error report is written at all (\<open>logging.raiseExceptions\<close> is true and
  \<open>sys.stderr\<close> is set), whether writing it raises, and its text after the first line;
  whether \<open>mkdir\<close> and \<open>open\<close> raise; and the text of \<open>formatException(sys.exc_info())\<close> at
  the call.
\<close>

record log_env =
  sink_raises :: "handler \<Rightarrow> log_record \<Rightarrow> exn option"
  report_enabled :: bool
  stderr_raises :: "exn option"
  report_tail :: "handler \<Rightarrow> log_record \<Rightarrow> string"
  mkdir_raises :: "exn option"
  open_raises :: "string \<Rightarrow> exn option"
  exc_text_now :: string

definition stream_content :: "log_world \<Rightarrow> stream \<Rightarrow> string" where
  "stream_content w s =
     (case s of
        Stdout \<Rightarrow> stdout w
      | Stderr \<Rightarrow> stderr w
      | File_stream p \<Rightarrow> (case files w p of None \<Rightarrow> [] | Some t \<Rightarrow> t))"

definition stream_write :: "stream \<Rightarrow> string \<Rightarrow> log_world \<Rightarrow> log_world" where
  "stream_write s txt w =
     (case s of
        Stdout \<Rightarrow> w\<lparr>stdout := stdout w @ txt\<rparr>
      | Stderr \<Rightarrow> w\<lparr>stderr := stderr w @ txt\<rparr>
      | File_stream p \<Rightarrow> w\<lparr>files := (files w)(p \<mapsto> stream_content w s @ txt)\<rparr>)"

text \<open>The logger behind a reference, and an assignment to its attributes. A name that
  the table does not hold as a logger has nothing behind it.\<close>

fun the_logger :: "log_world \<Rightarrow> logger_ref \<Rightarrow> logger" where
  "the_logger w Root = root_logger w"
| "the_logger w (Named n) =
     (case loggerDict w n of Some (Is_logger lg) \<Rightarrow> lg | _ \<Rightarrow> new_logger)"

fun update_logger :: "logger_ref \<Rightarrow> (logger \<Rightarrow> logger) \<Rightarrow> log_world \<Rightarrow> log_world" where
  "update_logger Root f w = w\<lparr>root_logger := f (root_logger w)\<rparr>"
| "update_logger (Named n) f w =
     (case loggerDict w n of
        Some (Is_logger lg) \<Rightarrow> w\<lparr>loggerDict := (loggerDict w)(n \<mapsto> Is_logger (f lg))\<rparr>
      | _ \<Rightarrow> w)"

definition set_parent :: "logger_ref \<Rightarrow> logger_ref option \<Rightarrow> log_world \<Rightarrow> log_world" where
  "set_parent c p w = update_logger c (\<lambda>l. l\<lparr>l_parent := p\<rparr>) w"

subsection \<open>Standard library: the hierarchy of loggers\<close>

text \<open>
  The prefixes that \<open>Manager._fixupParents\<close> visits for a name, longest first:
  \<^verbatim>\<open>
  i = name.rfind(".")
  while (i > 0) and not rv:
      substr = name[:i]
      ...
      i = name.rfind(".", 0, i - 1)
  \<close>
  \<open>prefixes name n\<close> are those found from a search in \<open>name[0:n]\<close> on.
\<close>

fun prefixes :: "string \<Rightarrow> nat \<Rightarrow> string list" where
  "prefixes name 0 = []"
| "prefixes name (Suc e) =
     (if name ! e = CHR ''.'' \<and> 0 < e then take e name # prefixes name (e - 1)
      else prefixes name e)"

text \<open>
  The body of that loop, prefix by prefix, until one of them is a logger: a prefix that
  the table does not hold gets a \<open>PlaceHolder\<close> for the new logger, a \<open>PlaceHolder\<close> takes
  it into its map. The result is the logger found, or the root logger.
\<close>

fun fixup_walk :: "string \<Rightarrow> string list \<Rightarrow> log_world \<Rightarrow> logger_ref \<times> log_world" where
  "fixup_walk name [] w = (Root, w)"
| "fixup_walk name (substr # rest) w =
     (case loggerDict w substr of
        None \<Rightarrow>
          fixup_walk name rest (w\<lparr>loggerDict := (loggerDict w)(substr \<mapsto> PlaceHolder [name])\<rparr>)
      | Some (Is_logger lg) \<Rightarrow> (Named substr, w)
      | Some (PlaceHolder cs) \<Rightarrow>
          fixup_walk name rest
            (w\<lparr>loggerDict := (loggerDict w)(substr \<mapsto>
                  PlaceHolder (if name \<in> set cs then cs else cs @ [name]))\<rparr>))"

text \<open>\<open>Manager._fixupParents(alogger)\<close>.\<close>

definition fixupParents :: "string \<Rightarrow> log_world \<Rightarrow> log_world" where
  "fixupParents name w =
     (case fixup_walk name (prefixes name (length name)) w of
        (rv, w') \<Rightarrow> set_parent (Named name) (Some rv) w')"

text \<open>
  \<open>Manager._fixupChildren(ph, alogger)\<close>, over the loggers \<open>c\<close> in the map of \<open>ph\<close>:
  \<^verbatim>\<open>
  if c.parent.name[:namelen] != name:
      alogger.parent = c.parent
      c.parent = alogger
  \<close>
  Every logger in such a map has a parent.
\<close>

fun fixupChildren :: "string \<Rightarrow> string list \<Rightarrow> log_world \<Rightarrow> log_world" where
  "fixupChildren name [] w = w"
| "fixupChildren name (c # cs) w =
     (case l_parent (the_logger w (Named c)) of
        None \<Rightarrow> fixupChildren name cs w
      | Some p \<Rightarrow>
          if take (length name) (ref_name p) \<noteq> name
          then fixupChildren name cs
                 (set_parent (Named c) (Some (Named name)) (set_parent (Named name) (Some p) w))
          else fixupChildren name cs w)"

text \<open>\<open>Manager.getLogger(name)\<close>.\<close>

definition Manager_getLogger :: "string \<Rightarrow> log_world \<Rightarrow> logger_ref \<times> log_world" where
  "Manager_getLogger name w =
     (case loggerDict w name of
        Some (Is_logger lg) \<Rightarrow> (Named name, w)
      | Some (PlaceHolder cs) \<Rightarrow>
          (Named name,
           fixupParents name
             (fixupChildren name cs (w\<lparr>loggerDict := (loggerDict w)(name \<mapsto> Is_logger new_logger)\<rparr>)))
      | None \<Rightarrow>
          (Named name,
           fixupParents name (w\<lparr>loggerDict := (loggerDict w)(name \<mapsto> Is_logger new_logger)\<rparr>)))"

text \<open>\<open>logging.getLogger(name)\<close>: the empty name and the name of the root logger give the
  root logger.\<close>

definition logger_ref_of :: "string \<Rightarrow> logger_ref" where
  "logger_ref_of name = (if name = [] \<or> name = ''root'' then Root else Named name)"

definition getLogger :: "string \<Rightarrow> log_world \<Rightarrow> logger_ref \<times> log_world" where
  "getLogger name w = (if name = [] \<or> name = ''root'' then (Root, w) else Manager_getLogger name w)"

text \<open>
  A logger and its ancestors, nearest first: the loop \<open>while c: ...; c = c.parent\<close>.
  The result is \<open>None\<close> when the loop does not end.
\<close>

partial_function (option) lineage :: "log_world \<Rightarrow> logger_ref \<Rightarrow> logger_ref list option" where
  "lineage w c =
     (case l_parent (the_logger w c) of
        None \<Rightarrow> Some [c]
      | Some p \<Rightarrow> Option.bind (lineage w p) (\<lambda>rs. Some (c # rs)))"

declare lineage.simps [code]

text \<open>\<open>Logger.getEffectiveLevel\<close>: the first level along the lineage that is not
  \<open>NOTSET\<close>.\<close>

fun getEffectiveLevel :: "log_world \<Rightarrow> logger_ref list \<Rightarrow> nat" where
  "getEffectiveLevel w [] = NOTSET"
| "getEffectiveLevel w (c # cs) =
     (if l_level (the_logger w c) \<noteq> 0 then l_level (the_logger w c) else getEffectiveLevel w cs)"

definition isEnabledFor :: "log_world \<Rightarrow> logger_ref list \<Rightarrow> level \<Rightarrow> bool" where
  "isEnabledFor w rs lv = (getEffectiveLevel w rs \<le> levelno lv)"

text \<open>The loggers whose handlers \<open>Logger.callHandlers\<close> visits: along the lineage, up to
  the first logger whose \<open>propagate\<close> is false.\<close>

fun propagation :: "log_world \<Rightarrow> logger_ref list \<Rightarrow> logger_ref list" where
  "propagation w [] = []"
| "propagation w (c # cs) = c # (if l_propagate (the_logger w c) then propagation w cs else [])"

definition chain_handlers :: "log_world \<Rightarrow> logger_ref list \<Rightarrow> handler list" where
  "chain_handlers w rs = concat (map (\<lambda>c. l_handlers (the_logger w c)) (propagation w rs))"

subsection \<open>Standard library: emitting a record\<close>

text \<open>
  \<open>Handler.handleError\<close>: when reports are enabled, the report is written to
  \<open>sys.stderr\<close>; an \<open>OSError\<close> while writing it is passed over (\<open>except OSError: pass\<close>),
  any other exception leaves \<open>handleError\<close>.
\<close>

definition handleError :: "log_env \<Rightarrow> handler \<Rightarrow> log_record \<Rightarrow> log_world \<Rightarrow> (exn + unit) \<times> log_world" where
  "handleError env h r w =
     (if report_enabled env
      then (case stderr_raises env of
              None \<Rightarrow>
                (Inr (), w\<lparr>stderr := stderr w @ ''--- Logging error ---'' @ [newline] @ report_tail env h r\<rparr>)
            | Some e \<Rightarrow> if is_OSError e then (Inr (), w) else (Inl e, w))
      else (Inr (), w))"

text \<open>
  \<open>StreamHandler.emit\<close>:
  \<^verbatim>\<open>
  try:
      msg = self.format(record)
      stream.write(msg + self.terminator); self.flush()
  except RecursionError: raise
  except Exception: self.handleError(record)
  \<close>
  \<open>FileHandler.emit\<close> is the same once the file is open, which it is from the
  construction of the handler on. \<open>sink_raises\<close> says whether the \<open>try\<close> part raises.
\<close>

definition emit :: "log_env \<Rightarrow> handler \<Rightarrow> log_record \<Rightarrow> log_world \<Rightarrow> (exn + unit) \<times> log_world" where
  "emit env h r w =
     (case sink_raises env h r of
        None \<Rightarrow> (Inr (), stream_write (h_stream h) (format_record (h_formatter h) r @ [newline]) w)
      | Some e \<Rightarrow>
          if e = RecursionError then (Inl e, w)
          else if is_Exception e then handleError env h r w
          else (Inl e, w))"

text \<open>
  The inner loop of \<open>Logger.callHandlers\<close>, over the handlers in the order the outer loop
  meets them: \<open>if record.levelno >= hdlr.level: hdlr.handle(record)\<close>. An exception leaving
  a handler leaves the loop.
\<close>

fun handle_all :: "log_env \<Rightarrow> handler list \<Rightarrow> log_record \<Rightarrow> log_world \<Rightarrow> (exn + unit) \<times> log_world" where
  "handle_all env [] r w = (Inr (), w)"
| "handle_all env (h # hs) r w =
     (if h_level h \<le> levelno (r_level r)
      then (case emit env h r w of
              (Inl e, w') \<Rightarrow> (Inl e, w')
            | (Inr u, w') \<Rightarrow> handle_all env hs r w')
      else handle_all env hs r w)"

text \<open>\<open>logging.lastResort\<close>: the handler for a record that met no handler at all. It
  writes the bare message to \<open>sys.stderr\<close> from \<open>WARNING\<close> on.\<close>

definition lastResort :: handler where
  "lastResort =
     \<lparr>h_level = levelno WARNING, h_stream = Stderr, h_encoding = None,
      h_formatter = \<lparr>fmt = [Message], datefmt = None\<rparr>\<rparr>"

definition effective_handlers :: "handler list \<Rightarrow> handler list" where
  "effective_handlers hs = (if hs = [] then [lastResort] else hs)"

text \<open>\<open>Logger.callHandlers\<close>, given the handlers of the logger and of the ancestors that
  the record propagates to.\<close>

definition callHandlers :: "log_env \<Rightarrow> handler list \<Rightarrow> log_record \<Rightarrow> log_world \<Rightarrow> (exn + unit) \<times> log_world" where
  "callHandlers env hs r w = handle_all env (effective_handlers hs) r w"

definition makeRecord ::
  "log_env \<Rightarrow> string \<Rightarrow> level \<Rightarrow> string \<Rightarrow> bool \<Rightarrow> string \<times> nat \<Rightarrow> datetime \<Rightarrow> log_record" where
  "makeRecord env name lv msg exc_info site now =
     \<lparr>r_name = name, r_level = lv, r_message = msg, r_funcName = fst site, r_lineno = snd site,
      r_created = now, r_exc_text = (if exc_info then Some (exc_text_now env) else None)\<rparr>"

text \<open>
  \<open>Logger.debug\<close>, \<open>info\<close>, \<open>warning\<close>, \<open>error\<close> and \<open>critical\<close> of the logger \<open>c\<close>:
  \<open>if self.isEnabledFor(level): self._log(level, msg, ...)\<close>. \<open>site\<close> is the function name
  and line of the caller, \<open>now\<close> the time of the call. The result is \<open>None\<close> when the walk
  along the ancestors does not end.
\<close>

definition Logger_log ::
  "log_env \<Rightarrow> logger_ref \<Rightarrow> level \<Rightarrow> string \<Rightarrow> bool \<Rightarrow> string \<times> nat \<Rightarrow> datetime \<Rightarrow> log_world
     \<Rightarrow> ((exn + unit) \<times> log_world) option" where
  "Logger_log env c lv msg exc_info site now w =
     (case lineage w c of
        None \<Rightarrow> None
      | Some rs \<Rightarrow>
          Some (if isEnabledFor w rs lv
                then callHandlers env (chain_handlers w rs)
                       (makeRecord env (ref_name c) lv msg exc_info site now) w
                else (Inr (), w)))"

subsection \<open>class AppLogger\<close>

text \<open>An \<open>AppLogger\<close> holds its logger, \<open>self.logger\<close>.\<close>

datatype app_logger = AppLogger logger_ref

fun logger_of :: "app_logger \<Rightarrow> logger_ref" where
  "logger_of (AppLogger c) = c"

definition console_format :: formatter where
  "console_format =
     \<lparr>fmt = [Asctime, FLit '' ['', Levelname, FLit ''] '', Message],
      datefmt = Some [TH, TLit '':'', TM, TLit '':'', TS]\<rparr>"

definition file_format :: formatter where
  "file_format =
     \<lparr>fmt = [Asctime, FLit '' ['', Levelname, FLit ''] '', FuncName, FLit '':'', Lineno, FLit '' - '', Message],
      datefmt = None\<rparr>"

definition console_handler :: handler where
  "console_handler =
     \<lparr>h_level = levelno INFO, h_stream = Stdout, h_encoding = None, h_formatter = console_format\<rparr>"

text \<open>\<open>Path("logs") / s\<close> for a file name \<open>s\<close>: an absolute right operand replaces the
  left one. A right operand with \<open>/\<close> in it may have parts that the library drops; the
  statements about the log file are for names without \<open>/\<close>.\<close>

definition path_join :: "string \<Rightarrow> string \<Rightarrow> string" where
  "path_join d s = (if s \<noteq> [] \<and> hd s = CHR ''/'' then s else d @ ''/'' @ s)"

definition log_file :: "string \<Rightarrow> datetime \<Rightarrow> string" where
  "log_file name now = path_join ''logs'' (name @ ''_'' @ strftime [TY, Tm, Td] now @ ''.log'')"

definition file_handler :: "string \<Rightarrow> datetime \<Rightarrow> handler" where
  "file_handler name now =
     \<lparr>h_level = levelno DEBUG, h_stream = File_stream (log_file name now),
      h_encoding = Some ''utf-8'', h_formatter = file_format\<rparr>"

text \<open>\<open>log_dir.mkdir(exist_ok=True)\<close> for \<open>log_dir = Path("logs")\<close>.\<close>

definition mkdir_logs :: "log_env \<Rightarrow> log_world \<Rightarrow> (exn + unit) \<times> log_world" where
  "mkdir_logs env w =
     (case logs_dir w of
        Directory \<Rightarrow> (Inr (), w)
      | Regular_file \<Rightarrow> (Inl FileExistsError, w)
      | Missing \<Rightarrow>
          (case mkdir_raises env of
             Some e \<Rightarrow> (Inl e, w)
           | None \<Rightarrow> (Inr (), w\<lparr>logs_dir := Directory\<rparr>)))"

text \<open>\<open>logging.FileHandler(log_file, encoding='utf-8')\<close> opens the file for appending,
  creating it when it does not exist.\<close>

definition open_append :: "log_env \<Rightarrow> string \<Rightarrow> log_world \<Rightarrow> (exn + unit) \<times> log_world" where
  "open_append env p w =
     (case open_raises env p of
        Some e \<Rightarrow> (Inl e, w)
      | None \<Rightarrow> (Inr (), w\<lparr>files := (files w)(p \<mapsto> stream_content w (File_stream p))\<rparr>))"

definition addHandler :: "logger_ref \<Rightarrow> handler \<Rightarrow> log_world \<Rightarrow> log_world" where
  "addHandler c h w = update_logger c (\<lambda>l. l\<lparr>l_handlers := l_handlers l @ [h]\<rparr>) w"

text \<open>
  \<open>AppLogger.__init__(name, log_to_file)\<close>, statement by statement: \<open>getLogger(name)\<close>,
  \<open>setLevel(logging.DEBUG)\<close>, \<open>handlers.clear()\<close>, the console handler, and the file
  handler when \<open>log_to_file\<close> holds. \<open>now\<close> is \<open>datetime.now()\<close>.
\<close>

definition AppLogger_init ::
  "log_env \<Rightarrow> string \<Rightarrow> bool \<Rightarrow> datetime \<Rightarrow> log_world \<Rightarrow> (exn + app_logger) \<times> log_world" where
  "AppLogger_init env name log_to_file now w =
     (case getLogger name w of
        (lg, w0) \<Rightarrow>
          (let w1 = update_logger lg (\<lambda>l. l\<lparr>l_level := levelno DEBUG\<rparr>) w0;
               w2 = update_logger lg (\<lambda>l. l\<lparr>l_handlers := []\<rparr>) w1;
               w3 = addHandler lg console_handler w2
           in if log_to_file
              then (case mkdir_logs env w3 of
                      (Inl e, w4) \<Rightarrow> (Inl e, w4)
                    | (Inr u, w4) \<Rightarrow>
                        (case open_append env (log_file name now) w4 of
                           (Inl e, w5) \<Rightarrow> (Inl e, w5)
                         | (Inr u', w5) \<Rightarrow>
                             (Inr (AppLogger lg), addHandler lg (file_handler name now) w5)))
              else (Inr (AppLogger lg), w3)))"

text \<open>
  The five logging methods. Each passes its message to the logger's method of the same
  name. The call site that the record carries is the method itself: \<open>method_site\<close> gives
  its name and the line of its call to the logger.
\<close>

fun method_site :: "level \<Rightarrow> string \<times> nat" where
  "method_site DEBUG = (''debug'', 168)"
| "method_site INFO = (''info'', 172)"
| "method_site WARNING = (''warning'', 176)"
| "method_site ERROR = (''error'', 180)"
| "method_site CRITICAL = (''critical'', 184)"

definition AppLogger_debug ::
  "log_env \<Rightarrow> app_logger \<Rightarrow> string \<Rightarrow> datetime \<Rightarrow> log_world \<Rightarrow> ((exn + unit) \<times> log_world) option" where
  "AppLogger_debug env self message now w =
     Logger_log env (logger_of self) DEBUG message False (method_site DEBUG) now w"

definition AppLogger_info ::
  "log_env \<Rightarrow> app_logger \<Rightarrow> string \<Rightarrow> datetime \<Rightarrow> log_world \<Rightarrow> ((exn + unit) \<times> log_world) option" where
  "AppLogger_info env self message now w =
     Logger_log env (logger_of self) INFO message False (method_site INFO) now w"

definition AppLogger_warning ::
  "log_env \<Rightarrow> app_logger \<Rightarrow> string \<Rightarrow> datetime \<Rightarrow> log_world \<Rightarrow> ((exn + unit) \<times> log_world) option" where
  "AppLogger_warning env self message now w =
     Logger_log env (logger_of self) WARNING message False (method_site WARNING) now w"

definition AppLogger_error ::
  "log_env \<Rightarrow> app_logger \<Rightarrow> string \<Rightarrow> bool \<Rightarrow> datetime \<Rightarrow> log_world \<Rightarrow> ((exn + unit) \<times> log_world) option" where
  "AppLogger_error env self message exc_info now w =
     Logger_log env (logger_of self) ERROR message exc_info (method_site ERROR) now w"

definition AppLogger_critical ::
  "log_env \<Rightarrow> app_logger \<Rightarrow> string \<Rightarrow> datetime \<Rightarrow> log_world \<Rightarrow> ((exn + unit) \<times> log_world) option" where
  "AppLogger_critical env self message now w =
     Logger_log env (logger_of self) CRITICAL message False (method_site CRITICAL) now w"

text \<open>A call of one of the five methods, as a value, and the record that the call makes.\<close>

datatype facade_call =
    Debug string
  | Info string
  | Warning string
  | Error string bool
  | Critical string

fun call_level :: "facade_call \<Rightarrow> level" where
  "call_level (Debug m) = DEBUG"
| "call_level (Info m) = INFO"
| "call_level (Warning m) = WARNING"
| "call_level (Error m x) = ERROR"
| "call_level (Critical m) = CRITICAL"

fun call_message :: "facade_call \<Rightarrow> string" where
  "call_message (Debug m) = m"
| "call_message (Info m) = m"
| "call_message (Warning m) = m"
| "call_message (Error m x) = m"
| "call_message (Critical m) = m"

fun call_exc_info :: "facade_call \<Rightarrow> bool" where
  "call_exc_info (Error m x) = x"
| "call_exc_info _ = False"

fun AppLogger_call ::
  "log_env \<Rightarrow> app_logger \<Rightarrow> facade_call \<Rightarrow> datetime \<Rightarrow> log_world \<Rightarrow> ((exn + unit) \<times> log_world) option" where
  "AppLogger_call env self (Debug m) now w = AppLogger_debug env self m now w"
| "AppLogger_call env self (Info m) now w = AppLogger_info env self m now w"
| "AppLogger_call env self (Warning m) now w = AppLogger_warning env self m now w"
| "AppLogger_call env self (Error m x) now w = AppLogger_error env self m x now w"
| "AppLogger_call env self (Critical m) now w = AppLogger_critical env self m now w"

definition call_record :: "log_env \<Rightarrow> app_logger \<Rightarrow> facade_call \<Rightarrow> datetime \<Rightarrow> log_record" where
  "call_record env self c now =
     makeRecord env (ref_name (logger_of self)) (call_level c) (call_message c) (call_exc_info c)
       (method_site (call_level c)) now"

text \<open>Constructions of loggers one after the other, each for its own name, flag and
  time, whether or not they raise.\<close>

definition construct_all :: "log_env \<Rightarrow> (string \<times> bool \<times> datetime) list \<Rightarrow> log_world \<Rightarrow> log_world" where
  "construct_all env cs w = fold (\<lambda>(name, log_to_file, now) w. snd (AppLogger_init env name log_to_file now w)) cs w"

text \<open>
  The handlers that a record logged on \<open>c\<close> meets: those of \<open>c\<close>, then those of the
  ancestors it propagates to; whether \<open>c\<close> is enabled for a level; and what one handler
  does with a record it takes when
  \<open>handleError\<close> returns: the formatted line goes to its stream, or, when formatting or
  writing raises, the error report goes to \<open>sys.stderr\<close> if it can be written.
\<close>

definition handler_chain :: "log_world \<Rightarrow> logger_ref \<Rightarrow> handler list" where
  "handler_chain w c = (case lineage w c of None \<Rightarrow> [] | Some rs \<Rightarrow> chain_handlers w rs)"

definition logger_enabled :: "log_world \<Rightarrow> logger_ref \<Rightarrow> level \<Rightarrow> bool" where
  "logger_enabled w c lv = (case lineage w c of None \<Rightarrow> False | Some rs \<Rightarrow> isEnabledFor w rs lv)"

definition deliver :: "handler \<Rightarrow> log_record \<Rightarrow> log_world \<Rightarrow> log_world" where
  "deliver h r w = stream_write (h_stream h) (format_record (h_formatter h) r @ [newline]) w"



text \<open>The line that a handler writes for a record.\<close>

definition line_of :: "log_record \<Rightarrow> handler \<Rightarrow> string" where
  "line_of r h = format_record (h_formatter h) r @ [newline]"


text \<open>
  The states of the table that the manager produces: the root logger has no parent;
  the parent of a named logger is the root logger or a logger of a shorter name; the
  loggers in the map of a \<open>PlaceHolder\<close> exist and have longer names than its key.
\<close>

definition is_logger :: "log_world \<Rightarrow> string \<Rightarrow> bool" where
  "is_logger w n = (case loggerDict w n of Some (Is_logger lg) \<Rightarrow> True | _ \<Rightarrow> False)"

fun ref_exists :: "log_world \<Rightarrow> logger_ref \<Rightarrow> bool" where
  "ref_exists w Root = True"
| "ref_exists w (Named n) = is_logger w n"

definition parent_ok :: "log_world \<Rightarrow> string \<Rightarrow> logger \<Rightarrow> bool" where
  "parent_ok w n lg =
     (case l_parent lg of
        None \<Rightarrow> False
      | Some Root \<Rightarrow> True
      | Some (Named m) \<Rightarrow> length m < length n \<and> is_logger w m)"

definition wf_except :: "string set \<Rightarrow> log_world \<Rightarrow> bool" where
  "wf_except X w =
     (l_parent (root_logger w) = None \<and>
      (\<forall>n lg. n \<notin> X \<longrightarrow> loggerDict w n = Some (Is_logger lg) \<longrightarrow> parent_ok w n lg) \<and>
      (\<forall>n cs c. loggerDict w n = Some (PlaceHolder cs) \<longrightarrow> c \<in> set cs \<longrightarrow>
         length n < length c \<and> is_logger w c))"

definition wf_world :: "log_world \<Rightarrow> bool" where
  "wf_world w = wf_except {} w"

text \<open>
  An environment in which nothing raises; one in which the console cannot be written; one
  in which, besides, \<open>sys.stderr\<close> is closed; a process that has configured no logger yet;
  and a time of day.
\<close>

definition log_env_ok :: log_env where
  "log_env_ok =
     \<lparr>sink_raises = (\<lambda>h r. None), report_enabled = True, stderr_raises = None,
      report_tail = (\<lambda>h r. []), mkdir_raises = None, open_raises = (\<lambda>p. None),
      exc_text_now = ''NoneType: None''\<rparr>"



definition empty_world :: log_world where
  "empty_world =
     \<lparr>root_logger = \<lparr>l_level = levelno WARNING, l_handlers = [], l_parent = None, l_propagate = True\<rparr>,
      loggerDict = (\<lambda>n. None),
      logs_dir = Missing, files = (\<lambda>p. None), stdout = [], stderr = []\<rparr>"

definition some_time :: datetime where
  "some_time = \<lparr>year = 2025, month = 10, day = 4, hour = 9, minute = 5, second = 7, msecs = 42\<rparr>"

text \<open>The process after \<open>AppLogger("Shop")\<close>; the process after \<open>AppLogger("a", False)\<close> and
  \<open>AppLogger("a.b", False)\<close>; and a message of two lines.\<close>

definition shop_world :: log_world where
  "shop_world = snd (AppLogger_init log_env_ok ''Shop'' True some_time empty_world)"

definition nested_world :: log_world where
  "nested_world =
     snd (AppLogger_init log_env_ok ''a.b'' False some_time
            (snd (AppLogger_init log_env_ok ''a'' False some_time empty_world)))"

definition two_lines :: string where
  "two_lines = ''one'' @ [newline] @ ''two''"

subsection \<open>class DaifukuShop\<close>

text \<open>
  The shop's messages are Japanese text with values interpolated; a message is represented
  by a constructor carrying those values, and \<open>logger_calls\<close> lists the calls made on
  \<open>self.logger\<close> in order. \<open>sales\<close> and prices are Python floats; they are modelled by
  real numbers, so rounding is not represented.
\<close>

datatype shop_msg =
    Opened string
  | Invalid_count int
  | Made int int
  | Invalid_sale_count int
  | Out_of_stock int int
  | Sold int real real
  | Status int real
  | Rule_line
  | Closing
  | Todays_sales real
  | Remaining_stock int

record shop =
  shop_name :: string
  stock :: int
  sales :: real
  shop_logger :: app_logger
  logger_calls :: "(level \<times> shop_msg) list"

definition shop_log :: "level \<Rightarrow> shop_msg \<Rightarrow> shop \<Rightarrow> shop" where
  "shop_log lv m s = s\<lparr>logger_calls := logger_calls s @ [(lv, m)]\<rparr>"

text \<open>\<open>DaifukuShop.__init__(name)\<close>; the logger is \<open>AppLogger(name, log_to_file=True)\<close>.\<close>

definition DaifukuShop_init ::
  "log_env \<Rightarrow> string \<Rightarrow> datetime \<Rightarrow> log_world \<Rightarrow> (exn + shop) \<times> log_world" where
  "DaifukuShop_init env name now w =
     (case AppLogger_init env name True now w of
        (Inl e, w') \<Rightarrow> (Inl e, w')
      | (Inr lg, w') \<Rightarrow>
          (Inr (shop_log INFO (Opened name)
                  \<lparr>shop_name = name, stock = 0, sales = 0, shop_logger = lg, logger_calls = []\<rparr>), w'))"

text \<open>The function \<open>make_daifuku(self, count)\<close> as written under the decorator line.\<close>

definition make_daifuku :: "int \<Rightarrow> shop \<Rightarrow> bool \<times> shop" where
  "make_daifuku count s =
     (if count \<le> 0 then (False, shop_log WARNING (Invalid_count count) s)
      else (let s1 = s\<lparr>stock := stock s + count\<rparr>
            in (True, shop_log INFO (Made count (stock s1)) s1)))"

text \<open>The function \<open>sell(self, count, price)\<close> as written under the decorator line.\<close>

definition sell :: "int \<Rightarrow> real \<Rightarrow> shop \<Rightarrow> bool \<times> shop" where
  "sell count price s =
     (if count \<le> 0 then (False, shop_log WARNING (Invalid_sale_count count) s)
      else if stock s < count then (False, shop_log ERROR (Out_of_stock count (stock s)) s)
      else (let s1 = s\<lparr>stock := stock s - count\<rparr>;
                s2 = s1\<lparr>sales := sales s1 + of_int count * price\<rparr>;
                s3 = shop_log INFO (Sold count price (of_int count * price)) s2
            in (True, shop_log INFO (Status (stock s3) (sales s3)) s3)))"

definition close_shop :: "shop \<Rightarrow> shop" where
  "close_shop s =
     shop_log INFO Rule_line
       (shop_log INFO (Remaining_stock (stock s))
          (shop_log INFO (Todays_sales (sales s))
             (shop_log INFO Closing
                (shop_log INFO Rule_line s))))"

subsection \<open>log\_function\_call and the decorated methods\<close>

text \<open>
  \<open>log_function_call(logger)\<close> returns the closure \<open>decorator\<close>, which takes one argument
  \<open>func\<close> and returns the closure \<open>wrapper\<close>. The class body writes
  \<^verbatim>\<open>
  @log_function_call
  def make_daifuku(self, count: int) -> bool:
  \<close>
  so the attribute \<open>make_daifuku\<close> of the class is \<open>log_function_call(make_daifuku)\<close>:
  the closure \<open>decorator\<close> with the function bound to its variable \<open>logger\<close>. The values
  involved are the instance, numbers, truth values, the two functions and the closures.
\<close>

datatype func = Fn_make_daifuku | Fn_sell

datatype pyvalue =
    Instance
  | Int_value int
  | Float_value real
  | Bool_value bool
  | Function func
  | Closure_decorator pyvalue
  | Closure_wrapper pyvalue pyvalue

definition log_function_call :: "pyvalue \<Rightarrow> pyvalue" where
  "log_function_call logger = Closure_decorator logger"

text \<open>\<open>def decorator(func)\<close>, called with the positional arguments \<open>args\<close>: any number of
  arguments other than one is a \<open>TypeError\<close>.\<close>

fun decorator :: "pyvalue \<Rightarrow> pyvalue list \<Rightarrow> exn + pyvalue" where
  "decorator logger [func] = Inr (Closure_wrapper logger func)"
| "decorator logger args = Inl TypeError"

definition DaifukuShop_make_daifuku :: pyvalue where
  "DaifukuShop_make_daifuku = log_function_call (Function Fn_make_daifuku)"

definition DaifukuShop_sell :: pyvalue where
  "DaifukuShop_sell = log_function_call (Function Fn_sell)"

text \<open>
  Calling a value with positional arguments. A function runs its body when the arguments
  are the instance and values of the kinds that its parameters are annotated with; the
  program passes no others, and the model answers \<open>TypeError\<close> for them as it does for a
  wrong number of arguments. \<open>wrapper\<close> begins with \<open>logger.info(...)\<close>, and none of the
  values above has an attribute \<open>info\<close>. The instance, numbers and truth values are not
  callable.
\<close>

fun call_value :: "pyvalue \<Rightarrow> pyvalue list \<Rightarrow> shop \<Rightarrow> (exn + pyvalue) \<times> shop" where
  "call_value (Closure_decorator logger) args s = (decorator logger args, s)"
| "call_value (Closure_wrapper logger f) args s = (Inl AttributeError, s)"
| "call_value (Function Fn_make_daifuku) [Instance, Int_value count] s =
     (case make_daifuku count s of (b, s') \<Rightarrow> (Inr (Bool_value b), s'))"
| "call_value (Function Fn_sell) [Instance, Int_value count, Float_value price] s =
     (case sell count price s of (b, s') \<Rightarrow> (Inr (Bool_value b), s'))"
| "call_value (Function Fn_sell) [Instance, Int_value count, Int_value price] s =
     (case sell count (of_int price) s of (b, s') \<Rightarrow> (Inr (Bool_value b), s'))"
| "call_value v args s = (Inl TypeError, s)"

text \<open>\<open>shop.attr(args)\<close> for a function-valued attribute of the class: the instance is
  passed as the first argument.\<close>

definition call_method :: "pyvalue \<Rightarrow> pyvalue list \<Rightarrow> shop \<Rightarrow> (exn + pyvalue) \<times> shop" where
  "call_method attr args s = call_value attr (Instance # args) s"

text \<open>
  What a caller can do with a shop: call the two methods through the class, call
  \<open>close_shop\<close>, and, for comparison, run the bodies of the two functions directly.
\<close>

datatype shop_op =
    Call_make_daifuku int
  | Call_sell int real
  | Call_close_shop
  | Body_make_daifuku int
  | Body_sell int real

fun apply_op :: "shop_op \<Rightarrow> shop \<Rightarrow> shop" where
  "apply_op (Call_make_daifuku c) s = snd (call_method DaifukuShop_make_daifuku [Int_value c] s)"
| "apply_op (Call_sell c p) s = snd (call_method DaifukuShop_sell [Int_value c, Float_value p] s)"
| "apply_op Call_close_shop s = close_shop s"
| "apply_op (Body_make_daifuku c) s = snd (make_daifuku c s)"
| "apply_op (Body_sell c p) s = snd (sell c p s)"

fun op_price :: "shop_op \<Rightarrow> real" where
  "op_price (Call_sell c p) = p"
| "op_price (Body_sell c p) = p"
| "op_price _ = 0"

definition run_ops :: "shop_op list \<Rightarrow> shop \<Rightarrow> shop" where
  "run_ops ops s = fold apply_op ops s"

text \<open>A shop as \<open>DaifukuShop("Shop")\<close> leaves it, and a day's operations.\<close>

definition shop0 :: shop where
  "shop0 = \<lparr>shop_name = ''Shop'', stock = 0, sales = 0, shop_logger = AppLogger (Named ''Shop''),
            logger_calls = [(INFO, Opened ''Shop'')]\<rparr>"

definition demo_ops :: "shop_op list" where
  "demo_ops =
     [Body_make_daifuku 20, Body_sell 3 300, Call_sell 5 300, Body_sell 15 300, Body_sell 20 300,
      Call_close_shop]"

section \<open>selenium\_setup\_guide.py: the browser session\<close>

subsection \<open>The remote side\<close>

text \<open>
  The browser and its driver are reached through library calls only. Each call made is
  recorded, in order, whether it returns or raises; what it does is the environment's
  choice, which may depend on the calls made before.
\<close>

datatype locator = By_NAME | By_CSS_SELECTOR

datatype keys = Text string | Keys_RETURN

datatype remote_call =
    Install_driver
  | New_session nat "string list"
  | Implicitly_wait nat nat
  | Get nat string
  | Find_element nat locator string
  | Find_elements nat locator string
  | Send_keys nat nat keys
  | Element_text nat nat
  | Save_screenshot nat string
  | Quit nat

record remote_env =
  raises :: "remote_call list \<Rightarrow> remote_call \<Rightarrow> exn option"
  element_found :: "remote_call list \<Rightarrow> nat"
  elements_found :: "remote_call list \<Rightarrow> nat list"
  text_of :: "remote_call list \<Rightarrow> nat \<Rightarrow> string"

text \<open>The messages of the module's logger, by the statement that writes them.\<close>

datatype sel_msg =
    Msg_class_initialised
  | Msg_starting_browser
  | Msg_stopping_browser
  | Msg_init_with_options
  | Msg_init_done
  | Msg_init_failed exn
  | Msg_searching string
  | Msg_results_found nat
  | Msg_result nat string
  | Msg_search_error exn
  | Msg_screenshot_saved string
  | Msg_screenshot_error exn

text \<open>
  \<open>driver\<close> is the attribute \<open>self.driver\<close> of the one \<open>WebAutomation\<close> object
  (\<open>None\<close>, or the session it holds); \<open>calls\<close> are the calls made on the remote side,
  \<open>provisioned\<close> the number of sessions created so far, \<open>sel_log\<close> the lines logged,
  \<open>slept\<close> the seconds spent in \<open>time.sleep\<close>.
\<close>

record session_state =
  driver :: "nat option"
  calls :: "remote_call list"
  provisioned :: nat
  sel_log :: "(level \<times> sel_msg) list"
  slept :: nat

subsection \<open>Sequencing, exceptions, \<open>try\<close>\<close>

definition seq ::
  "('s \<Rightarrow> (exn + 'a) \<times> 's) \<Rightarrow> ('a \<Rightarrow> 's \<Rightarrow> (exn + 'b) \<times> 's) \<Rightarrow> 's \<Rightarrow> (exn + 'b) \<times> 's" where
  "seq m f s = (case m s of (Inl e, s') \<Rightarrow> (Inl e, s') | (Inr x, s') \<Rightarrow> f x s')"

definition effect :: "('s \<Rightarrow> 's) \<Rightarrow> 's \<Rightarrow> (exn + unit) \<times> 's" where
  "effect f s = (Inr (), f s)"

text \<open>\<open>try: body / except Exception as e: handler(e); raise\<close>.\<close>

definition except_reraise ::
  "('s \<Rightarrow> (exn + 'a) \<times> 's) \<Rightarrow> (exn \<Rightarrow> 's \<Rightarrow> 's) \<Rightarrow> 's \<Rightarrow> (exn + 'a) \<times> 's" where
  "except_reraise body handler s =
     (case body s of
        (Inl e, s') \<Rightarrow> if is_Exception e then (Inl e, handler e s') else (Inl e, s')
      | (Inr x, s') \<Rightarrow> (Inr x, s'))"


definition logger_info :: "sel_msg \<Rightarrow> session_state \<Rightarrow> session_state" where
  "logger_info m s = s\<lparr>sel_log := sel_log s @ [(INFO, m)]\<rparr>"

definition logger_error :: "sel_msg \<Rightarrow> session_state \<Rightarrow> session_state" where
  "logger_error m s = s\<lparr>sel_log := sel_log s @ [(ERROR, m)]\<rparr>"

definition sleep :: "nat \<Rightarrow> session_state \<Rightarrow> session_state" where
  "sleep n s = s\<lparr>slept := slept s + n\<rparr>"

text \<open>A call on the remote side that returns the value \<open>result\<close> reads off the calls made
  before it.\<close>

definition remote ::
  "remote_env \<Rightarrow> remote_call \<Rightarrow> (remote_call list \<Rightarrow> 'a) \<Rightarrow> session_state \<Rightarrow> (exn + 'a) \<times> session_state" where
  "remote env c result s =
     (let s' = s\<lparr>calls := calls s @ [c]\<rparr> in
      case raises env (calls s) c of
        Some e \<Rightarrow> (Inl e, s')
      | None \<Rightarrow> (Inr (result (calls s)), s'))"

subsection \<open>setup\_driver\_with\_options and class WebAutomation\<close>

definition chrome_options :: "string list" where
  "chrome_options = [''--start-maximized'', ''--disable-notifications'', ''--disable-popup-blocking'']"

text \<open>
  \<open>setup_driver_with_options()\<close>: install the driver, create the session with the three
  options, set the implicit wait to 10 seconds, return the session.
\<close>

definition setup_driver_with_options :: "remote_env \<Rightarrow> session_state \<Rightarrow> (exn + nat) \<times> session_state" where
  "setup_driver_with_options env =
     except_reraise
       (seq (effect (logger_info Msg_init_with_options)) (\<lambda>_.
        seq (remote env Install_driver (\<lambda>_. ())) (\<lambda>_.
        (\<lambda>s. seq (remote env (New_session (provisioned s) chrome_options) (\<lambda>_. provisioned s)) (\<lambda>h.
             seq (effect (\<lambda>s. s\<lparr>provisioned := Suc (provisioned s)\<rparr>)) (\<lambda>_.
             seq (remote env (Implicitly_wait h 10) (\<lambda>_. ())) (\<lambda>_.
             seq (effect (logger_info Msg_init_done)) (\<lambda>_.
             (\<lambda>s. (Inr h, s)))))) s))))
       (\<lambda>e. logger_error (Msg_init_failed e))"


text \<open>\<open>WebAutomation.start\<close>.\<close>

definition start :: "remote_env \<Rightarrow> session_state \<Rightarrow> (exn + unit) \<times> session_state" where
  "start env =
     seq (effect (logger_info Msg_starting_browser)) (\<lambda>_.
     seq (setup_driver_with_options env) (\<lambda>h.
     effect (\<lambda>s. s\<lparr>driver := Some h\<rparr>)))"

text \<open>\<open>WebAutomation.stop\<close>.\<close>

definition stop :: "remote_env \<Rightarrow> session_state \<Rightarrow> (exn + unit) \<times> session_state" where
  "stop env s =
     (case driver s of
        None \<Rightarrow> (Inr (), s)
      | Some h \<Rightarrow>
          seq (effect (logger_info Msg_stopping_browser)) (\<lambda>_.
          seq (remote env (Quit h) (\<lambda>_. ())) (\<lambda>_.
          effect (\<lambda>s. s\<lparr>driver := None\<rparr>))) s)"

text \<open>The loop \<open>for i, result in enumerate(results[:3], 1): logger.info(... result.text ...)\<close>.\<close>

fun log_results :: "remote_env \<Rightarrow> nat \<Rightarrow> nat \<Rightarrow> nat list \<Rightarrow> session_state \<Rightarrow> (exn + unit) \<times> session_state" where
  "log_results env h i [] s = (Inr (), s)"
| "log_results env h i (el # els) s =
     (case remote env (Element_text h el) (\<lambda>cs. text_of env cs el) s of
        (Inl e, s') \<Rightarrow> (Inl e, s')
      | (Inr t, s') \<Rightarrow> log_results env h (Suc i) els (logger_info (Msg_result i t) s'))"

text \<open>\<open>WebAutomation.search_daifuku_recipe(keyword)\<close>.\<close>

definition search_daifuku_recipe :: "remote_env \<Rightarrow> string \<Rightarrow> session_state \<Rightarrow> (exn + unit) \<times> session_state" where
  "search_daifuku_recipe env keyword s =
     (case driver s of
        None \<Rightarrow> (Inl ValueError, s)
      | Some h \<Rightarrow>
          except_reraise
            (seq (effect (logger_info (Msg_searching keyword))) (\<lambda>_.
             seq (remote env (Get h ''https://www.google.com'') (\<lambda>_. ())) (\<lambda>_.
             seq (effect (sleep 2)) (\<lambda>_.
             seq (remote env (Find_element h By_NAME ''q'') (element_found env)) (\<lambda>search_box.
             seq (remote env (Send_keys h search_box (Text keyword)) (\<lambda>_. ())) (\<lambda>_.
             seq (remote env (Send_keys h search_box Keys_RETURN) (\<lambda>_. ())) (\<lambda>_.
             seq (effect (sleep 3)) (\<lambda>_.
             seq (remote env (Find_elements h By_CSS_SELECTOR ''h3'') (elements_found env)) (\<lambda>results.
             seq (effect (logger_info (Msg_results_found (length results)))) (\<lambda>_.
             log_results env h 1 (take 3 results)))))))))))
            (\<lambda>e. logger_error (Msg_search_error e)) s)"

text \<open>\<open>WebAutomation.take_screenshot(filename)\<close>.\<close>

definition take_screenshot :: "remote_env \<Rightarrow> string \<Rightarrow> session_state \<Rightarrow> (exn + unit) \<times> session_state" where
  "take_screenshot env filename s =
     (case driver s of
        None \<Rightarrow> (Inl ValueError, s)
      | Some h \<Rightarrow>
          except_reraise
            (seq (remote env (Save_screenshot h filename) (\<lambda>_. ())) (\<lambda>_.
             effect (logger_info (Msg_screenshot_saved filename))))
            (\<lambda>e. logger_error (Msg_screenshot_error e)) s)"

subsection \<open>The third part of main\<close>

text \<open>The action methods of the class, and a sequence of them run until one raises.\<close>

datatype action = Search string | Screenshot string

fun perform :: "remote_env \<Rightarrow> action \<Rightarrow> session_state \<Rightarrow> (exn + unit) \<times> session_state" where
  "perform env (Search keyword) s = search_daifuku_recipe env keyword s"
| "perform env (Screenshot filename) s = take_screenshot env filename s"

fun run_actions :: "remote_env \<Rightarrow> action list \<Rightarrow> session_state \<Rightarrow> (exn + unit) \<times> session_state" where
  "run_actions env [] s = (Inr (), s)"
| "run_actions env (a # as) s =
     (case perform env a s of
        (Inl e, s') \<Rightarrow> (Inl e, s')
      | (Inr u, s') \<Rightarrow> run_actions env as s')"




text \<open>A remote side on which every call returns, and the state of a fresh process.\<close>

definition env_ok :: remote_env where
  "env_ok = \<lparr>raises = (\<lambda>cs c. None), element_found = (\<lambda>cs. 0), elements_found = (\<lambda>cs. []),
            text_of = (\<lambda>cs el. [])\<rparr>"

definition fresh :: session_state where
  "fresh = \<lparr>driver = None, calls = [], provisioned = 0, sel_log = [], slept = 0\<rparr>"

text \<open>A session as \<open>start\<close> leaves it on that remote side, and two remote sides on which
  one call raises: \<open>quit\<close>, and \<open>save_screenshot\<close>.\<close>

definition active :: session_state where
  "active =
     \<lparr>driver = Some 0,
      calls = [Install_driver, New_session 0 chrome_options, Implicitly_wait 0 10],
      provisioned = 1,
      sel_log = [(INFO, Msg_starting_browser), (INFO, Msg_init_with_options), (INFO, Msg_init_done)],
      slept = 0\<rparr>"



text \<open>The class of the exception that a run ended with, if it ended with one.\<close>

definition raised_class :: "(exn + 'a) \<times> 's \<Rightarrow> string option" where
  "raised_class r = (case fst r of Inl e \<Rightarrow> Some (exn_class e) | Inr x \<Rightarrow> None)"

text \<open>A step is quiet about session \<open>h\<close> when it leaves \<open>self.driver\<close> as it is and adds
  no \<open>quit\<close> of \<open>h\<close> to the calls.\<close>

definition quiet :: "nat \<Rightarrow> (session_state \<Rightarrow> (exn + 'a) \<times> session_state) \<Rightarrow> bool" where
  "quiet h m = (\<forall>s. driver (snd (m s)) = driver s \<and>
                    count_list (calls (snd (m s))) (Quit h) = count_list (calls s) (Quit h))"

section \<open>Properties of the browser session\<close>

lemmas run_defs = start_def stop_def setup_driver_with_options_def seq_def effect_def
  except_reraise_def remote_def Let_def logger_info_def logger_error_def sleep_def

lemma start_env_ok_fresh: "start env_ok fresh = (Inr (), active)"
  by (simp add: run_defs env_ok_def fresh_def active_def chrome_options_def)

subsection \<open>Steps that release nothing\<close>

lemma quietI:
  "(\<And>s. driver (snd (m s)) = driver s) \<Longrightarrow>
   (\<And>s. count_list (calls (snd (m s))) (Quit h) = count_list (calls s) (Quit h)) \<Longrightarrow> quiet h m"
  by (simp add: quiet_def)

lemma quiet_driver: "quiet h m \<Longrightarrow> driver (snd (m s)) = driver s"
  by (simp add: quiet_def)

lemma quiet_count:
  "quiet h m \<Longrightarrow> count_list (calls (snd (m s))) (Quit h) = count_list (calls s) (Quit h)"
  by (simp add: quiet_def)

lemma quiet_effect_info: "quiet h (effect (logger_info m))"
  by (simp add: quiet_def effect_def logger_info_def)

lemma quiet_effect_sleep: "quiet h (effect (sleep n))"
  by (simp add: quiet_def effect_def sleep_def)

lemma quiet_remote: "c \<noteq> Quit h \<Longrightarrow> quiet h (remote env c f)"
  by (auto simp add: quiet_def remote_def Let_def split: option.splits)

lemma quiet_seq:
  assumes "quiet h m" and "\<And>x. quiet h (f x)"
  shows "quiet h (seq m f)"
proof (rule quietI)
  fix s
  obtain r s' where ms: "m s = (r, s')" by (cases "m s")
  have d: "driver s' = driver s"
    using quiet_driver [OF assms(1), of s] ms by simp
  show "driver (snd (seq m f s)) = driver s"
  proof (cases r)
    case (Inl e)
    then show ?thesis using ms d by (simp add: seq_def)
  next
    case (Inr x)
    then show ?thesis
      using ms d quiet_driver [OF assms(2), of x s'] by (simp add: seq_def)
  qed
next
  fix s
  obtain r s' where ms: "m s = (r, s')" by (cases "m s")
  have c: "count_list (calls s') (Quit h) = count_list (calls s) (Quit h)"
    using quiet_count [OF assms(1), of s] ms by simp
  show "count_list (calls (snd (seq m f s))) (Quit h) = count_list (calls s) (Quit h)"
  proof (cases r)
    case (Inl e)
    then show ?thesis using ms c by (simp add: seq_def)
  next
    case (Inr x)
    then show ?thesis
      using ms c quiet_count [OF assms(2), of x s'] by (simp add: seq_def)
  qed
qed

lemma quiet_except:
  assumes "quiet h m" and "\<And>e s. driver (g e s) = driver s" and "\<And>e s. calls (g e s) = calls s"
  shows "quiet h (except_reraise m g)"
proof (rule quietI)
  fix s
  obtain r s' where ms: "m s = (r, s')" by (cases "m s")
  have d: "driver s' = driver s"
    using quiet_driver [OF assms(1), of s] ms by simp
  show "driver (snd (except_reraise m g s)) = driver s"
    using ms d assms(2) by (cases r) (simp_all add: except_reraise_def)
next
  fix s
  obtain r s' where ms: "m s = (r, s')" by (cases "m s")
  have c: "count_list (calls s') (Quit h) = count_list (calls s) (Quit h)"
    using quiet_count [OF assms(1), of s] ms by simp
  show "count_list (calls (snd (except_reraise m g s))) (Quit h) = count_list (calls s) (Quit h)"
    using ms c assms(3) by (cases r) (simp_all add: except_reraise_def)
qed

lemma quiet_log_results: "quiet h (log_results env h' i els)"
proof -
  have "driver (snd (log_results env h' i els s)) = driver s \<and>
        count_list (calls (snd (log_results env h' i els s))) (Quit h) = count_list (calls s) (Quit h)" for s
  proof (induction els arbitrary: i s)
    case Nil
    show ?case by simp
  next
    case (Cons el els)
    show ?case
      by (simp add: remote_def Let_def Cons.IH logger_info_def split: option.splits)
  qed
  then show ?thesis by (simp add: quiet_def)
qed

lemma logger_error_frame:
  "driver (logger_error m s) = driver s" "calls (logger_error m s) = calls s"
  by (simp_all add: logger_error_def)

lemma quiet_search: "quiet h (search_daifuku_recipe env keyword)"
  unfolding quiet_def
proof (intro allI)
  fix s
  show "driver (snd (search_daifuku_recipe env keyword s)) = driver s \<and>
        count_list (calls (snd (search_daifuku_recipe env keyword s))) (Quit h)
          = count_list (calls s) (Quit h)"
  proof (cases "driver s")
    case None
    then show ?thesis by (simp add: search_daifuku_recipe_def)
  next
    case (Some h')
    have Q: "quiet h (except_reraise
            (seq (effect (logger_info (Msg_searching keyword))) (\<lambda>_.
             seq (remote env (Get h' ''https://www.google.com'') (\<lambda>_. ())) (\<lambda>_.
             seq (effect (sleep 2)) (\<lambda>_.
             seq (remote env (Find_element h' By_NAME ''q'') (element_found env)) (\<lambda>search_box.
             seq (remote env (Send_keys h' search_box (Text keyword)) (\<lambda>_. ())) (\<lambda>_.
             seq (remote env (Send_keys h' search_box Keys_RETURN) (\<lambda>_. ())) (\<lambda>_.
             seq (effect (sleep 3)) (\<lambda>_.
             seq (remote env (Find_elements h' By_CSS_SELECTOR ''h3'') (elements_found env)) (\<lambda>results.
             seq (effect (logger_info (Msg_results_found (length results)))) (\<lambda>_.
             log_results env h' 1 (take 3 results)))))))))))
            (\<lambda>e. logger_error (Msg_search_error e)))"
      by (intro quiet_except quiet_seq quiet_effect_info quiet_effect_sleep quiet_remote
          quiet_log_results logger_error_frame) simp_all
    show ?thesis
      using Some quiet_driver [OF Q, of s] quiet_count [OF Q, of s]
      by (simp add: search_daifuku_recipe_def)
  qed
qed

lemma quiet_screenshot: "quiet h (take_screenshot env filename)"
  unfolding quiet_def
proof (intro allI)
  fix s
  show "driver (snd (take_screenshot env filename s)) = driver s \<and>
        count_list (calls (snd (take_screenshot env filename s))) (Quit h)
          = count_list (calls s) (Quit h)"
  proof (cases "driver s")
    case None
    then show ?thesis by (simp add: take_screenshot_def)
  next
    case (Some h')
    have Q: "quiet h (except_reraise
            (seq (remote env (Save_screenshot h' filename) (\<lambda>_. ())) (\<lambda>_.
             effect (logger_info (Msg_screenshot_saved filename))))
            (\<lambda>e. logger_error (Msg_screenshot_error e)))"
      by (intro quiet_except quiet_seq quiet_effect_info quiet_remote logger_error_frame) simp_all
    show ?thesis
      using Some quiet_driver [OF Q, of s] quiet_count [OF Q, of s]
      by (simp add: take_screenshot_def)
  qed
qed

lemma quiet_perform: "quiet h (perform env a)"
proof (cases a)
  case (Search k)
  have "perform env (Search k) = search_daifuku_recipe env k" by (rule ext) simp
  then show ?thesis using Search quiet_search by simp
next
  case (Screenshot f)
  have "perform env (Screenshot f) = take_screenshot env f" by (rule ext) simp
  then show ?thesis using Screenshot quiet_screenshot by simp
qed

lemma quiet_run_actions: "quiet h (run_actions env as)"
  unfolding quiet_def
proof (intro allI)
  fix s
  show "driver (snd (run_actions env as s)) = driver s \<and>
        count_list (calls (snd (run_actions env as s))) (Quit h) = count_list (calls s) (Quit h)"
  proof (induction as arbitrary: s)
    case Nil
    show ?case by simp
  next
    case (Cons a as)
    obtain r s' where p: "perform env a s = (r, s')" by (cases "perform env a s")
    have Q: "quiet h (perform env a)" by (rule quiet_perform)
    have d: "driver s' = driver s"
      and c: "count_list (calls s') (Quit h) = count_list (calls s) (Quit h)"
      using quiet_driver [OF Q, of s] quiet_count [OF Q, of s] p by simp_all
    show ?case
      using p d c Cons.IH [of s'] by (cases r) simp_all
  qed
qed

subsection \<open>\<open>start\<close> and \<open>stop\<close>\<close>

lemma start_success:
  assumes "fst (start env s) = Inr ()"
  shows "driver (snd (start env s)) = Some (provisioned s)"
    and "count_list (calls (snd (start env s))) (Quit h) = count_list (calls s) (Quit h)"
  using assms
  by (auto simp add: run_defs split: option.splits if_splits)


lemma stop_success_driver: "fst (stop env s) = Inr () \<Longrightarrow> driver (snd (stop env s)) = None"
  by (auto simp add: stop_def seq_def effect_def remote_def Let_def logger_info_def split: option.splits)

lemma perform_no_driver: "driver s = None \<Longrightarrow> perform env a s = (Inl ValueError, s)"
  by (cases a) (simp_all add: search_daifuku_recipe_def take_screenshot_def)


lemma seq_snd_Inr: "fst (m s) = Inr x \<Longrightarrow> snd (seq m f s) = snd (f x (snd (m s)))"
  by (cases "m s") (simp add: seq_def)

text \<open>The actions alone release nothing: after \<open>start()\<close> and any actions, no \<open>quit\<close>
  has been called.\<close>

lemma actions_release_nothing:
  assumes "fst (start env s) = Inr ()"
  shows "count_list (calls (snd (seq (start env) (\<lambda>_. run_actions env as) s))) (Quit h)
           = count_list (calls s) (Quit h)"
proof -
  have Q: "quiet h (run_actions env as)" by (rule quiet_run_actions)
  have body: "snd (seq (start env) (\<lambda>_. run_actions env as) s)
                = snd (run_actions env as (snd (start env s)))"
    using assms by (rule seq_snd_Inr)
  show ?thesis
    using quiet_count [OF Q, of "snd (start env s)"] start_success(2) [OF assms]
    by (simp add: body)
qed

subsection \<open>Actions outside an active session\<close>

text \<open>
  C2, as the code has it. An action method called while \<open>self.driver\<close> is \<open>None\<close>, that
  is before \<open>start()\<close> or after a \<open>stop()\<close> that returned, raises \<open>ValueError\<close> and leaves
  everything as it was: no call reaches the remote side, nothing is logged. The module
  defines no exception class of its own.
\<close>

theorem action_without_driver:
  "(driver s = None \<longrightarrow> perform env a s = (Inl ValueError, s)) \<and>
   (fst (stop env s) = Inr () \<longrightarrow>
      perform env a (snd (stop env s)) = (Inl ValueError, snd (stop env s)))"
  using perform_no_driver stop_success_driver by blast

theorem action_without_driver_witness:
  "driver fresh = None \<and> fst (stop env_ok active) = Inr () \<and>
   search_daifuku_recipe env_ok ''mochi'' fresh = (Inl ValueError, fresh) \<and>
   take_screenshot env_ok ''screenshot.png'' (snd (stop env_ok active))
     = (Inl ValueError, snd (stop env_ok active))"
proof -
  have a: "driver fresh = None" by (simp add: fresh_def)
  have b: "fst (stop env_ok active) = Inr ()"
    by (simp add: run_defs env_ok_def active_def)
  show ?thesis
    using a b action_without_driver [where s = fresh and env = env_ok and a = "Search ''mochi''"]
      action_without_driver [where s = active and env = env_ok and a = "Screenshot ''screenshot.png''"]
    by simp
qed

text \<open>The exception of \<open>take_screenshot()\<close> on a fresh object is a \<open>ValueError\<close>, not a
  \<open>SessionNotActiveError\<close>.\<close>

theorem action_raises_ValueError_not_SessionNotActiveError:
  "raised_class (take_screenshot env_ok ''screenshot.png'' fresh) = Some ''ValueError'' \<and>
   raised_class (take_screenshot env_ok ''screenshot.png'' fresh) \<noteq> Some ''SessionNotActiveError''"
  by (simp add: raised_class_def take_screenshot_def fresh_def)

subsection \<open>Release in the frame of main\<close>



subsection \<open>\<open>stop\<close>\<close>




subsection \<open>A second \<open>start\<close>\<close>

text \<open>
  C5, as the code has it. \<open>start()\<close> does not look at \<open>self.driver\<close>. On an object that
  holds session \<open>h\<close> it makes the same calls with the same outcome as on one that holds
  none. When they return, \<open>self.driver\<close> is the session just created; when one raises,
  that exception leaves \<open>start()\<close> and \<open>self.driver\<close> is still \<open>h\<close>. In neither case is
  \<open>quit\<close> called on \<open>h\<close>.
\<close>

theorem start_ignores_driver:
  "fst (start env (s\<lparr>driver := Some h\<rparr>)) = fst (start env (s\<lparr>driver := None\<rparr>)) \<and>
   calls (snd (start env (s\<lparr>driver := Some h\<rparr>))) = calls (snd (start env (s\<lparr>driver := None\<rparr>))) \<and>
   driver (snd (start env (s\<lparr>driver := Some h\<rparr>)))
     = (case fst (start env (s\<lparr>driver := Some h\<rparr>)) of
          Inl e \<Rightarrow> Some h
        | Inr u \<Rightarrow> Some (provisioned s)) \<and>
   count_list (calls (snd (start env (s\<lparr>driver := Some h\<rparr>)))) (Quit h) = count_list (calls s) (Quit h)"
  by (auto simp add: run_defs split: option.splits)

text \<open>A second \<open>start()\<close> returns; the object then holds a second session, and the calls
  that created it have been made.\<close>

theorem second_start_returns:
  "driver active = Some 0 \<and>
   fst (start env_ok active) = Inr () \<and>
   raised_class (start env_ok active) \<noteq> Some ''AlreadyStartedError'' \<and>
   driver (snd (start env_ok active)) = Some 1 \<and>
   calls (snd (start env_ok active))
     = calls active @ [Install_driver, New_session 1 chrome_options, Implicitly_wait 1 10]"
  by (simp add: run_defs env_ok_def active_def raised_class_def)

section \<open>Properties of the logging facade\<close>

subsection \<open>Assignments to loggers\<close>

lemma update_logger_frame [simp]:
  "logs_dir (update_logger c f w) = logs_dir w"
  "files (update_logger c f w) = files w"
  "stdout (update_logger c f w) = stdout w"
  "stderr (update_logger c f w) = stderr w"
  by (cases c; simp split: option.splits dict_entry.splits)+

lemma update_logger_is_logger [simp]: "is_logger (update_logger c f w) n = is_logger w n"
  by (cases c) (auto simp add: is_logger_def split: option.splits dict_entry.splits)

lemma update_logger_ref_exists [simp]: "ref_exists (update_logger c f w) c' = ref_exists w c'"
  by (cases c') simp_all

lemma update_logger_placeholder [simp]:
  "loggerDict (update_logger c f w) n = Some (PlaceHolder cs) \<longleftrightarrow> loggerDict w n = Some (PlaceHolder cs)"
  by (cases c) (auto split: option.splits dict_entry.splits)

lemma update_logger_the:
  "the_logger (update_logger c f w) c' =
     (if c' = c \<and> ref_exists w c then f (the_logger w c) else the_logger w c')"
  by (cases c; cases c') (auto simp add: is_logger_def split: option.splits dict_entry.splits)

lemma update_logger_root:
  "root_logger (update_logger c f w) = (if c = Root then f (root_logger w) else root_logger w)"
  by (cases c) (auto split: option.splits dict_entry.splits)

lemma stream_content_update [simp]: "stream_content (update_logger c f w) s = stream_content w s"
  by (cases s) (simp_all add: stream_content_def)

lemma set_parent_frame [simp]:
  "logs_dir (set_parent c p w) = logs_dir w"
  "files (set_parent c p w) = files w"
  "stdout (set_parent c p w) = stdout w"
  "stderr (set_parent c p w) = stderr w"
  "is_logger (set_parent c p w) n = is_logger w n"
  by (simp_all add: set_parent_def)

lemma set_parent_root [simp]: "root_logger (set_parent (Named n) p w) = root_logger w"
  by (simp add: set_parent_def split: option.splits dict_entry.splits)

subsection \<open>Creating a logger\<close>

lemma placeholder_write_is_logger:
  "\<not> is_logger w k \<Longrightarrow>
   is_logger (w\<lparr>loggerDict := (loggerDict w)(k \<mapsto> PlaceHolder x)\<rparr>) n = is_logger w n"
  by (auto simp add: is_logger_def split: option.splits dict_entry.splits)

lemma placeholder_write_the:
  "\<not> is_logger w k \<Longrightarrow>
   the_logger (w\<lparr>loggerDict := (loggerDict w)(k \<mapsto> PlaceHolder x)\<rparr>) c = the_logger w c"
  by (cases c) (auto simp add: is_logger_def split: option.splits dict_entry.splits)

lemma not_logger_cases:
  "loggerDict w k = None \<Longrightarrow> \<not> is_logger w k"
  "loggerDict w k = Some (PlaceHolder cs) \<Longrightarrow> \<not> is_logger w k"
  by (simp_all add: is_logger_def)

lemma is_logger_iff: "is_logger w n \<longleftrightarrow> (\<exists>lg. loggerDict w n = Some (Is_logger lg))"
  by (auto simp add: is_logger_def split: option.splits dict_entry.splits)

lemma fixup_walk_step:
  "fixup_walk name (s # rest) w =
     (if is_logger w s then (Named s, w)
      else fixup_walk name rest
             (w\<lparr>loggerDict := (loggerDict w)(s \<mapsto> PlaceHolder
                   (case loggerDict w s of
                      Some (PlaceHolder cs) \<Rightarrow> if name \<in> set cs then cs else cs @ [name]
                    | _ \<Rightarrow> [name]))\<rparr>))"
  by (auto simp add: is_logger_def split: option.splits dict_entry.splits)

lemma fixup_walk_frame [simp]:
  "logs_dir (snd (fixup_walk name cands w)) = logs_dir w"
  "files (snd (fixup_walk name cands w)) = files w"
  "stdout (snd (fixup_walk name cands w)) = stdout w"
  "stderr (snd (fixup_walk name cands w)) = stderr w"
  "root_logger (snd (fixup_walk name cands w)) = root_logger w"
  by (induction cands arbitrary: w; simp only: fixup_walk.simps(1) fixup_walk_step; simp)+

lemma fixup_walk_is_logger [simp]: "is_logger (snd (fixup_walk name cands w)) n = is_logger w n"
proof (induction cands arbitrary: w)
  case Nil
  show ?case by simp
next
  case (Cons s rest)
  show ?case
    by (simp only: fixup_walk_step) (simp add: Cons.IH placeholder_write_is_logger)
qed

lemma fixup_walk_the [simp]: "the_logger (snd (fixup_walk name cands w)) c = the_logger w c"
proof (induction cands arbitrary: w)
  case Nil
  show ?case by simp
next
  case (Cons s rest)
  show ?case
    by (simp only: fixup_walk_step) (simp add: Cons.IH placeholder_write_the)
qed

lemma fixup_walk_result:
  "fst (fixup_walk name cands w) = Root \<or>
   (\<exists>s\<in>set cands. fst (fixup_walk name cands w) = Named s \<and> is_logger w s)"
proof (induction cands arbitrary: w)
  case Nil
  show ?case by simp
next
  case (Cons s rest)
  show ?case
  proof (cases "is_logger w s")
    case True
    then show ?thesis by (simp only: fixup_walk_step) simp
  next
    case False
    let ?w = "w\<lparr>loggerDict := (loggerDict w)(s \<mapsto> PlaceHolder
                   (case loggerDict w s of
                      Some (PlaceHolder cs) \<Rightarrow> if name \<in> set cs then cs else cs @ [name]
                    | _ \<Rightarrow> [name]))\<rparr>"
    have eq: "fixup_walk name (s # rest) w = fixup_walk name rest ?w"
      using False by (simp only: fixup_walk_step) simp
    have il: "is_logger ?w n = is_logger w n" for n
      using False by (rule placeholder_write_is_logger)
    show ?thesis
      unfolding eq using Cons.IH [of ?w] by (auto simp add: il)
  qed
qed

lemma fixupChildren_frame [simp]:
  "logs_dir (fixupChildren name cs w) = logs_dir w"
  "files (fixupChildren name cs w) = files w"
  "stdout (fixupChildren name cs w) = stdout w"
  "stderr (fixupChildren name cs w) = stderr w"
  "is_logger (fixupChildren name cs w) n = is_logger w n"
  "root_logger (fixupChildren name cs w) = root_logger w"
  by (induction cs arbitrary: w; simp split: option.splits)+

lemma fixupParents_frame [simp]:
  "logs_dir (fixupParents name w) = logs_dir w"
  "files (fixupParents name w) = files w"
  "stdout (fixupParents name w) = stdout w"
  "stderr (fixupParents name w) = stderr w"
  "is_logger (fixupParents name w) n = is_logger w n"
  "root_logger (fixupParents name w) = root_logger w"
proof -
  obtain rv w' where fw: "fixup_walk name (prefixes name (length name)) w = (rv, w')"
    by (cases "fixup_walk name (prefixes name (length name)) w")
  have w': "w' = snd (fixup_walk name (prefixes name (length name)) w)" using fw by simp
  show "logs_dir (fixupParents name w) = logs_dir w"
    "files (fixupParents name w) = files w"
    "stdout (fixupParents name w) = stdout w"
    "stderr (fixupParents name w) = stderr w"
    "is_logger (fixupParents name w) n = is_logger w n"
    "root_logger (fixupParents name w) = root_logger w"
    by (simp_all add: fixupParents_def fw) (simp_all add: w')
qed

lemma Manager_getLogger_frame [simp]:
  "logs_dir (snd (Manager_getLogger name w)) = logs_dir w"
  "files (snd (Manager_getLogger name w)) = files w"
  "stdout (snd (Manager_getLogger name w)) = stdout w"
  "stderr (snd (Manager_getLogger name w)) = stderr w"
  "root_logger (snd (Manager_getLogger name w)) = root_logger w"
  "fst (Manager_getLogger name w) = Named name"
  by (simp_all add: Manager_getLogger_def split: option.splits dict_entry.splits)

lemma insert_is_logger:
  "is_logger (w\<lparr>loggerDict := (loggerDict w)(name \<mapsto> Is_logger lg)\<rparr>) n \<longleftrightarrow> n = name \<or> is_logger w n"
  by (simp add: is_logger_def)

lemma Manager_getLogger_is_logger:
  "is_logger (snd (Manager_getLogger name w)) n \<longleftrightarrow> n = name \<or> is_logger w n"
proof (cases "loggerDict w name")
  case None
  then show ?thesis by (simp add: Manager_getLogger_def insert_is_logger)
next
  case (Some e)
  show ?thesis
  proof (cases e)
    case (Is_logger lg)
    then have "is_logger w name" using Some by (simp add: is_logger_def)
    then show ?thesis using Some Is_logger by (auto simp add: Manager_getLogger_def)
  next
    case (PlaceHolder cs)
    then show ?thesis using Some by (simp add: Manager_getLogger_def insert_is_logger)
  qed
qed

lemma getLogger_frame [simp]:
  "logs_dir (snd (getLogger name w)) = logs_dir w"
  "files (snd (getLogger name w)) = files w"
  "stdout (snd (getLogger name w)) = stdout w"
  "stderr (snd (getLogger name w)) = stderr w"
  "fst (getLogger name w) = logger_ref_of name"
  by (simp_all add: getLogger_def logger_ref_of_def)

lemma getLogger_exists [simp]: "ref_exists (snd (getLogger name w)) (logger_ref_of name)"
  by (simp add: getLogger_def logger_ref_of_def Manager_getLogger_is_logger)

subsection \<open>Construction\<close>

lemma the_logger_fs [simp]:
  "the_logger (w\<lparr>logs_dir := d\<rparr>) c = the_logger w c"
  "the_logger (w\<lparr>files := f\<rparr>) c = the_logger w c"
  "the_logger (w\<lparr>stdout := x\<rparr>) c = the_logger w c"
  "the_logger (w\<lparr>stderr := x\<rparr>) c = the_logger w c"
  by (cases c; simp)+

lemma is_logger_fs [simp]:
  "is_logger (w\<lparr>logs_dir := d\<rparr>) n = is_logger w n"
  "is_logger (w\<lparr>files := f\<rparr>) n = is_logger w n"
  "is_logger (w\<lparr>stdout := x\<rparr>) n = is_logger w n"
  "is_logger (w\<lparr>stderr := x\<rparr>) n = is_logger w n"
  by (simp_all add: is_logger_def)

lemma ref_exists_fs [simp]:
  "ref_exists (w\<lparr>logs_dir := d\<rparr>) c = ref_exists w c"
  "ref_exists (w\<lparr>files := f\<rparr>) c = ref_exists w c"
  by (cases c; simp)+

lemma mkdir_logs_the [simp]:
  "the_logger (snd (mkdir_logs env w)) c = the_logger w c"
  "ref_exists (snd (mkdir_logs env w)) c = ref_exists w c"
  by (simp_all add: mkdir_logs_def split: fs_entry.splits option.splits)

lemma open_append_the [simp]:
  "the_logger (snd (open_append env p w)) c = the_logger w c"
  "ref_exists (snd (open_append env p w)) c = ref_exists w c"
  by (simp_all add: open_append_def split: option.splits)

lemma addHandler_the:
  "ref_exists w c \<Longrightarrow>
   the_logger (addHandler c h w) c = (the_logger w c)\<lparr>l_handlers := l_handlers (the_logger w c) @ [h]\<rparr>"
  by (simp add: addHandler_def update_logger_the)

lemma addHandler_exists [simp]: "ref_exists (addHandler c h w) c' = ref_exists w c'"
  by (simp add: addHandler_def)

text \<open>The logger as the first four statements of \<open>__init__\<close> leave it.\<close>

lemma init_base:
  fixes env name w
  defines "c \<equiv> logger_ref_of name"
  defines "w3 \<equiv> addHandler c console_handler
                  (update_logger c (\<lambda>l. l\<lparr>l_handlers := []\<rparr>)
                     (update_logger c (\<lambda>l. l\<lparr>l_level := levelno DEBUG\<rparr>) (snd (getLogger name w))))"
  shows "ref_exists w3 c"
    and "the_logger w3 c =
           (the_logger (snd (getLogger name w)) c)\<lparr>l_level := levelno DEBUG, l_handlers := [console_handler]\<rparr>"
  by (simp_all add: c_def w3_def addHandler_def update_logger_the)

lemma AppLogger_init_unfold:
  "AppLogger_init env name b now w =
     (let c = logger_ref_of name;
          w3 = addHandler c console_handler
                  (update_logger c (\<lambda>l. l\<lparr>l_handlers := []\<rparr>)
                     (update_logger c (\<lambda>l. l\<lparr>l_level := levelno DEBUG\<rparr>) (snd (getLogger name w))))
      in if b
         then (case mkdir_logs env w3 of
                 (Inl e, w4) \<Rightarrow> (Inl e, w4)
               | (Inr u, w4) \<Rightarrow>
                   (case open_append env (log_file name now) w4 of
                      (Inl e, w5) \<Rightarrow> (Inl e, w5)
                    | (Inr u', w5) \<Rightarrow> (Inr (AppLogger c), addHandler c (file_handler name now) w5)))
         else (Inr (AppLogger c), w3))"
proof -
  obtain lg w0 where g: "getLogger name w = (lg, w0)" by (cases "getLogger name w")
  then have "lg = logger_ref_of name" "w0 = snd (getLogger name w)"
    using getLogger_frame(5) [of name w] by simp_all
  then show ?thesis using g by (simp add: AppLogger_init_def Let_def)
qed

lemma AppLogger_init_logger:
  fixes env name b now w
  defines "c \<equiv> logger_ref_of name"
  defines "r \<equiv> AppLogger_init env name b now w"
  shows "the_logger (snd r) c =
           (the_logger (snd (getLogger name w)) c)
             \<lparr>l_level := levelno DEBUG,
              l_handlers := (case fst r of
                               Inr a \<Rightarrow> console_handler # (if b then [file_handler name now] else [])
                             | Inl e \<Rightarrow> [console_handler])\<rparr>"
    and "ref_exists (snd r) c"
proof -
  let ?w3 = "addHandler c console_handler
                  (update_logger c (\<lambda>l. l\<lparr>l_handlers := []\<rparr>)
                     (update_logger c (\<lambda>l. l\<lparr>l_level := levelno DEBUG\<rparr>) (snd (getLogger name w))))"
  note base = init_base [of name w, folded c_def]
  obtain r1 w4 where m: "mkdir_logs env ?w3 = (r1, w4)" by (cases "mkdir_logs env ?w3")
  obtain r2 w5 where p: "open_append env (log_file name now) w4 = (r2, w5)"
    by (cases "open_append env (log_file name now) w4")
  have e4: "w4 = snd (mkdir_logs env ?w3)" by (simp only: m snd_conv)
  have e5: "w5 = snd (open_append env (log_file name now) w4)" by (simp only: p snd_conv)
  have w4: "the_logger w4 c = the_logger ?w3 c" "ref_exists w4 c"
    unfolding e4 by (simp_all only: mkdir_logs_the base(1))
  have w5: "the_logger w5 c = the_logger ?w3 c" "ref_exists w5 c"
    unfolding e5 by (simp_all only: open_append_the w4)
  show "the_logger (snd r) c =
           (the_logger (snd (getLogger name w)) c)
             \<lparr>l_level := levelno DEBUG,
              l_handlers := (case fst r of
                               Inr a \<Rightarrow> console_handler # (if b then [file_handler name now] else [])
                             | Inl e \<Rightarrow> [console_handler])\<rparr>"
    unfolding r_def AppLogger_init_unfold Let_def c_def [symmetric]
    using m p w4 w5 base
    by (cases r1; cases r2; cases b) (simp_all add: addHandler_the)
  show "ref_exists (snd r) c"
    unfolding r_def AppLogger_init_unfold Let_def c_def [symmetric]
    using m p w4 w5 base
    by (cases r1; cases r2; cases b) simp_all
qed

lemma handlers_differ: "console_handler \<noteq> file_handler name now"
  by (simp add: console_handler_def file_handler_def)

text \<open>
  C6. Constructing an \<open>AppLogger\<close> does not add to the sinks that the logger of that
  name already has: \<open>__init__\<close> clears the handler list before it adds its own. After
  any number of earlier constructions, for this or any other name, a construction that
  returns leaves the logger with the console handler, followed by the file handler of
  this construction when \<open>log_to_file\<close> holds, and with nothing else; one that raises,
  which only creating the directory or opening the file can do, leaves the console
  handler alone. No handler occurs twice.
\<close>

theorem construction_replaces_sinks:
  "l_handlers (the_logger (snd (AppLogger_init env name b now (construct_all env cs w))) (logger_ref_of name))
     = (case fst (AppLogger_init env name b now (construct_all env cs w)) of
          Inr a \<Rightarrow> console_handler # (if b then [file_handler name now] else [])
        | Inl e \<Rightarrow> [console_handler]) \<and>
   distinct (l_handlers (the_logger (snd (AppLogger_init env name b now (construct_all env cs w)))
               (logger_ref_of name)))"
  by (simp add: AppLogger_init_logger(1) handlers_differ split: sum.splits)

subsection \<open>The table of loggers stays well formed\<close>

lemma wf_except_alt:
  "wf_except X w \<longleftrightarrow>
     l_parent (root_logger w) = None \<and>
     (\<forall>n. n \<notin> X \<longrightarrow> is_logger w n \<longrightarrow> parent_ok w n (the_logger w (Named n))) \<and>
     (\<forall>n cs c. loggerDict w n = Some (PlaceHolder cs) \<longrightarrow> c \<in> set cs \<longrightarrow>
        length n < length c \<and> is_logger w c)"
  unfolding wf_except_def is_logger_iff by (intro conj_cong refl) auto

declare the_logger.simps [simp del]

lemma parent_ok_cong:
  "(\<And>m. is_logger w' m = is_logger w m) \<Longrightarrow> l_parent lg' = l_parent lg \<Longrightarrow>
   parent_ok w' n lg' = parent_ok w n lg"
  by (simp add: parent_ok_def split: option.splits logger_ref.splits)

lemma parent_ok_mono:
  "(\<And>m. is_logger w m \<Longrightarrow> is_logger w' m) \<Longrightarrow> parent_ok w n lg \<Longrightarrow> parent_ok w' n lg"
  by (auto simp add: parent_ok_def split: option.splits logger_ref.splits)

lemma parent_ok_fs [simp]:
  "parent_ok (w\<lparr>logs_dir := d\<rparr>) n lg = parent_ok w n lg"
  "parent_ok (w\<lparr>files := f\<rparr>) n lg = parent_ok w n lg"
  "parent_ok (w\<lparr>stdout := x\<rparr>) n lg = parent_ok w n lg"
  "parent_ok (w\<lparr>stderr := x\<rparr>) n lg = parent_ok w n lg"
  by (rule parent_ok_cong; simp)+

lemma wf_except_fs [simp]:
  "wf_except X (w\<lparr>logs_dir := d\<rparr>) = wf_except X w"
  "wf_except X (w\<lparr>files := f\<rparr>) = wf_except X w"
  "wf_except X (w\<lparr>stdout := x\<rparr>) = wf_except X w"
  "wf_except X (w\<lparr>stderr := x\<rparr>) = wf_except X w"
  by (simp_all add: wf_except_def)

lemma update_logger_wf:
  assumes "\<And>l. l_parent (f l) = l_parent l"
  shows "wf_except X (update_logger c f w) = wf_except X w"
proof -
  have po: "parent_ok (update_logger c f w) n (the_logger (update_logger c f w) (Named n))
              = parent_ok w n (the_logger w (Named n))" for n
    by (rule parent_ok_cong) (simp_all add: update_logger_the assms)
  show ?thesis
    unfolding wf_except_alt by (simp add: po update_logger_root assms)
qed

lemma insert_logger_wf:
  assumes "wf_except X w" and "\<not> is_logger w name"
  shows "wf_except (insert name X) (w\<lparr>loggerDict := (loggerDict w)(name \<mapsto> Is_logger lg)\<rparr>)"
proof -
  let ?w = "w\<lparr>loggerDict := (loggerDict w)(name \<mapsto> Is_logger lg)\<rparr>"
  have mono: "is_logger w m \<Longrightarrow> is_logger ?w m" for m by (simp add: insert_is_logger)
  have a: "parent_ok ?w n lg'" if "n \<notin> insert name X" "loggerDict ?w n = Some (Is_logger lg')" for n lg'
  proof -
    have "loggerDict w n = Some (Is_logger lg')" using that by simp
    then have "parent_ok w n lg'" using assms(1) that(1) by (simp add: wf_except_def)
    then show ?thesis using mono by (rule parent_ok_mono [rotated])
  qed
  have b: "length n < length c \<and> is_logger ?w c"
    if "loggerDict ?w n = Some (PlaceHolder cs)" "c \<in> set cs" for n cs c
  proof -
    have "loggerDict w n = Some (PlaceHolder cs)" using that(1) by (simp split: if_splits)
    then have "length n < length c \<and> is_logger w c" using assms(1) that(2) by (auto simp add: wf_except_def)
    then show ?thesis using mono by blast
  qed
  have r: "l_parent (root_logger ?w) = None" using assms(1) by (simp add: wf_except_def)
  show ?thesis unfolding wf_except_def using a b r by blast
qed

lemma set_parent_the:
  "the_logger (set_parent c p w) c' =
     (if c' = c \<and> ref_exists w c then (the_logger w c)\<lparr>l_parent := p\<rparr> else the_logger w c')"
  by (simp add: set_parent_def update_logger_the)

lemma set_parent_placeholder [simp]:
  "loggerDict (set_parent c p w) n = Some (PlaceHolder cs) \<longleftrightarrow> loggerDict w n = Some (PlaceHolder cs)"
  by (simp add: set_parent_def)

lemma wf_except_mono: "wf_except X w \<Longrightarrow> X \<subseteq> Y \<Longrightarrow> wf_except Y w"
  unfolding wf_except_def by blast

lemma set_parent_parent_ok:
  "parent_ok (set_parent c p w) n lg = parent_ok w n lg"
  by (rule parent_ok_cong) simp_all

lemma set_parent_wf_in:
  assumes "wf_except X w" and "c \<in> X"
  shows "wf_except X (set_parent (Named c) p w)"
proof -
  have a: "parent_ok (set_parent (Named c) p w) n (the_logger (set_parent (Named c) p w) (Named n))"
    if "n \<notin> X" "is_logger w n" for n
  proof -
    have "n \<noteq> c" using that(1) assms(2) by blast
    then have "the_logger (set_parent (Named c) p w) (Named n) = the_logger w (Named n)"
      by (simp add: set_parent_the)
    moreover have "parent_ok w n (the_logger w (Named n))"
      using assms(1) that by (simp add: wf_except_alt)
    ultimately show ?thesis by (simp add: set_parent_parent_ok)
  qed
  show ?thesis
    using assms(1) a unfolding wf_except_alt by simp
qed

lemma set_parent_wf_ok:
  assumes "wf_except X w"
    and "p = Root \<or> (\<exists>m. p = Named m \<and> length m < length c \<and> is_logger w m)"
  shows "wf_except (X - {c}) (set_parent (Named c) (Some p) w)"
proof -
  have a: "parent_ok (set_parent (Named c) (Some p) w) n (the_logger (set_parent (Named c) (Some p) w) (Named n))"
    if "n \<notin> X - {c}" "is_logger w n" for n
  proof (cases "n = c")
    case True
    have "the_logger (set_parent (Named c) (Some p) w) (Named c) = (the_logger w (Named c))\<lparr>l_parent := Some p\<rparr>"
      using that(2) True by (simp add: set_parent_the)
    moreover have "parent_ok w c ((the_logger w (Named c))\<lparr>l_parent := Some p\<rparr>)"
      using assms(2) by (auto simp add: parent_ok_def)
    ultimately show ?thesis using True by (simp add: set_parent_parent_ok)
  next
    case False
    then have "the_logger (set_parent (Named c) (Some p) w) (Named n) = the_logger w (Named n)"
      by (simp add: set_parent_the)
    moreover have "parent_ok w n (the_logger w (Named n))"
      using assms(1) that False by (simp add: wf_except_alt)
    ultimately show ?thesis by (simp add: set_parent_parent_ok)
  qed
  show ?thesis
    using assms(1) a unfolding wf_except_alt by simp
qed

lemma fixupChildren_wf:
  assumes "wf_except X w" and "name \<in> X" and "is_logger w name"
    and "\<forall>c\<in>set cs. length name < length c"
  shows "wf_except X (fixupChildren name cs w)"
  using assms
proof (induction cs arbitrary: w)
  case Nil
  then show ?case by simp
next
  case (Cons c cs)
  have rest: "\<forall>c\<in>set cs. length name < length c" using Cons.prems(4) by simp
  have len: "length name < length c" using Cons.prems(4) by simp
  show ?case
  proof (cases "l_parent (the_logger w (Named c))")
    case None
    then show ?thesis using Cons.IH [OF Cons.prems(1-3) rest] by simp
  next
    case (Some p)
    show ?thesis
    proof (cases "take (length name) (ref_name p) \<noteq> name")
      case False
      then show ?thesis using Some Cons.IH [OF Cons.prems(1-3) rest] by simp
    next
      case True
      let ?w1 = "set_parent (Named name) (Some p) w"
      let ?w2 = "set_parent (Named c) (Some (Named name)) ?w1"
      have w1: "wf_except X ?w1" using Cons.prems(1,2) by (rule set_parent_wf_in)
      have il: "is_logger ?w1 name" using Cons.prems(3) by simp
      have "wf_except (X - {c}) ?w2"
        using w1 by (rule set_parent_wf_ok) (simp add: len Cons.prems(3))
      then have w2: "wf_except X ?w2" by (rule wf_except_mono) blast
      have il2: "is_logger ?w2 name" using Cons.prems(3) by simp
      show ?thesis
        using True Some Cons.IH [OF w2 Cons.prems(2) il2 rest] by simp
    qed
  qed
qed

lemma placeholder_write_wf:
  assumes "wf_except X w" and "\<not> is_logger w s" and "length s < length name" and "is_logger w name"
  shows "wf_except X (w\<lparr>loggerDict := (loggerDict w)(s \<mapsto> PlaceHolder
                   (case loggerDict w s of
                      Some (PlaceHolder cs) \<Rightarrow> if name \<in> set cs then cs else cs @ [name]
                    | _ \<Rightarrow> [name]))\<rparr>)"
proof -
  let ?ph = "case loggerDict w s of
               Some (PlaceHolder cs) \<Rightarrow> if name \<in> set cs then cs else cs @ [name]
             | _ \<Rightarrow> [name]"
  let ?w = "w\<lparr>loggerDict := (loggerDict w)(s \<mapsto> PlaceHolder ?ph)\<rparr>"
  have il: "is_logger ?w n = is_logger w n" for n
    using assms(2) by (rule placeholder_write_is_logger)
  have tl: "the_logger ?w c = the_logger w c" for c
    using assms(2) by (rule placeholder_write_the)
  have a: "parent_ok ?w n (the_logger ?w (Named n))" if "n \<notin> X" "is_logger w n" for n
  proof -
    have "parent_ok w n (the_logger w (Named n))" using assms(1) that by (simp add: wf_except_alt)
    then show ?thesis unfolding tl by (rule parent_ok_mono [rotated]) (simp add: il)
  qed
  have old: "length n < length c \<and> is_logger w c"
    if "loggerDict w n = Some (PlaceHolder cs)" "c \<in> set cs" for n cs c
    using assms(1) that unfolding wf_except_def by blast
  have ph: "length s < length c \<and> is_logger w c" if "c \<in> set ?ph" for c
  proof (cases "loggerDict w s")
    case None
    then show ?thesis using that assms(3,4) by simp
  next
    case (Some e)
    show ?thesis
    proof (cases e)
      case (Is_logger lg)
      then show ?thesis using that assms(3,4) Some by simp
    next
      case (PlaceHolder cs)
      then have "c \<in> set cs \<or> c = name" using that Some by (auto split: if_splits)
      then show ?thesis using old [OF Some [unfolded PlaceHolder]] assms(3,4) by blast
    qed
  qed
  have b: "length n < length c \<and> is_logger ?w c"
    if "loggerDict ?w n = Some (PlaceHolder cs)" "c \<in> set cs" for n cs c
  proof (cases "n = s")
    case True
    then have "cs = ?ph" using that(1) by simp
    then show ?thesis using ph [of c] that(2) True by (simp add: il)
  next
    case False
    then have "loggerDict w n = Some (PlaceHolder cs)" using that(1) by simp
    then show ?thesis using old that(2) by (simp add: il)
  qed
  have r: "l_parent (root_logger ?w) = None" using assms(1) by (simp add: wf_except_def)
  show ?thesis
    unfolding wf_except_alt using a b r by (simp only: il) blast
qed

lemma fixup_walk_wf:
  assumes "wf_except X w" and "is_logger w name" and "\<forall>s\<in>set cands. length s < length name"
  shows "wf_except X (snd (fixup_walk name cands w))"
  using assms
proof (induction cands arbitrary: w)
  case Nil
  then show ?case by simp
next
  case (Cons s rest)
  show ?case
  proof (cases "is_logger w s")
    case True
    then show ?thesis using Cons.prems(1) by (simp only: fixup_walk_step) simp
  next
    case False
    let ?w = "w\<lparr>loggerDict := (loggerDict w)(s \<mapsto> PlaceHolder
                   (case loggerDict w s of
                      Some (PlaceHolder cs) \<Rightarrow> if name \<in> set cs then cs else cs @ [name]
                    | _ \<Rightarrow> [name]))\<rparr>"
    have eq: "fixup_walk name (s # rest) w = fixup_walk name rest ?w"
      using False by (simp only: fixup_walk_step) simp
    have len: "length s < length name" using Cons.prems(3) by simp
    have wf: "wf_except X ?w" using Cons.prems(1) False len Cons.prems(2) by (rule placeholder_write_wf)
    have il: "is_logger ?w name"
      using Cons.prems(2) placeholder_write_is_logger [OF False] by simp
    have rest: "\<forall>s\<in>set rest. length s < length name" using Cons.prems(3) by simp
    show ?thesis unfolding eq using wf il rest by (rule Cons.IH)
  qed
qed

lemma prefixes_shorter:
  "s \<in> set (prefixes name e) \<Longrightarrow> e \<le> length name \<Longrightarrow> length s < length name"
proof (induction name e rule: prefixes.induct)
  case (1 name)
  then show ?case by simp
next
  case (2 name e)
  show ?case
  proof (cases "name ! e = CHR ''.'' \<and> 0 < e")
    case True
    then have "s = take e name \<or> s \<in> set (prefixes name (e - 1))" using "2.prems"(1) by simp
    then show ?thesis
    proof
      assume "s = take e name"
      then show ?thesis using "2.prems"(2) by simp
    next
      assume "s \<in> set (prefixes name (e - 1))"
      then show ?thesis using "2.IH"(1) [OF True] "2.prems"(2) by simp
    qed
  next
    case False
    then have "s \<in> set (prefixes name e)" using "2.prems"(1) by auto
    then show ?thesis using "2.IH"(2) [OF False] "2.prems"(2) by simp
  qed
qed

lemma fixupParents_wf:
  assumes "wf_except {name} w" and "is_logger w name"
  shows "wf_world (fixupParents name w)"
proof -
  let ?cands = "prefixes name (length name)"
  obtain rv w' where fw: "fixup_walk name ?cands w = (rv, w')"
    by (cases "fixup_walk name ?cands w")
  have w': "w' = snd (fixup_walk name ?cands w)" and rv: "rv = fst (fixup_walk name ?cands w)"
    using fw by simp_all
  have short: "\<forall>s\<in>set ?cands. length s < length name"
    using prefixes_shorter [of _ name "length name"] by blast
  have wf': "wf_except {name} w'"
    unfolding w' using assms short by (rule fixup_walk_wf)
  have il: "is_logger w' m = is_logger w m" for m unfolding w' by simp
  have "rv = Root \<or> (\<exists>s\<in>set ?cands. rv = Named s \<and> is_logger w s)"
    unfolding rv by (rule fixup_walk_result)
  then have ok: "rv = Root \<or> (\<exists>m. rv = Named m \<and> length m < length name \<and> is_logger w' m)"
    using short il by blast
  have "wf_except ({name} - {name}) (set_parent (Named name) (Some rv) w')"
    using wf' ok by (rule set_parent_wf_ok)
  then show ?thesis by (simp add: wf_world_def fixupParents_def fw)
qed

lemma Manager_getLogger_wf:
  assumes "wf_world w"
  shows "wf_world (snd (Manager_getLogger name w))"
proof (cases "loggerDict w name")
  case None
  let ?w = "w\<lparr>loggerDict := (loggerDict w)(name \<mapsto> Is_logger new_logger)\<rparr>"
  have "\<not> is_logger w name" using None by (rule not_logger_cases)
  then have "wf_except (insert name {}) ?w"
    using assms unfolding wf_world_def by (intro insert_logger_wf)
  moreover have "is_logger ?w name" by (simp add: insert_is_logger)
  ultimately have "wf_world (fixupParents name ?w)" by (intro fixupParents_wf) simp_all
  then show ?thesis using None by (simp add: Manager_getLogger_def)
next
  case (Some e)
  show ?thesis
  proof (cases e)
    case (Is_logger lg)
    then show ?thesis using Some assms by (simp add: Manager_getLogger_def)
  next
    case (PlaceHolder cs)
    let ?w = "w\<lparr>loggerDict := (loggerDict w)(name \<mapsto> Is_logger new_logger)\<rparr>"
    have ph: "loggerDict w name = Some (PlaceHolder cs)" using Some PlaceHolder by simp
    have "\<not> is_logger w name" using ph by (rule not_logger_cases)
    then have wf1: "wf_except {name} ?w"
      using assms insert_logger_wf [of "{}" w name new_logger] unfolding wf_world_def by simp
    have il: "is_logger ?w name" by (simp add: insert_is_logger)
    have len: "\<forall>c\<in>set cs. length name < length c"
      using assms ph unfolding wf_world_def wf_except_def by blast
    have wf2: "wf_except {name} (fixupChildren name cs ?w)"
      using wf1 _ il len by (rule fixupChildren_wf) simp
    have il2: "is_logger (fixupChildren name cs ?w) name" using il by simp
    have "wf_world (fixupParents name (fixupChildren name cs ?w))"
      using wf2 il2 by (rule fixupParents_wf)
    then show ?thesis using ph by (simp add: Manager_getLogger_def)
  qed
qed

lemma getLogger_wf: "wf_world w \<Longrightarrow> wf_world (snd (getLogger name w))"
  by (simp add: getLogger_def Manager_getLogger_wf)

lemma addHandler_wf [simp]: "wf_except X (addHandler c h w) = wf_except X w"
  unfolding addHandler_def by (rule update_logger_wf) simp

lemma mkdir_logs_wf [simp]: "wf_except X (snd (mkdir_logs env w)) = wf_except X w"
  by (simp add: mkdir_logs_def split: fs_entry.splits option.splits)

lemma open_append_wf [simp]: "wf_except X (snd (open_append env p w)) = wf_except X w"
  by (simp add: open_append_def split: option.splits)

lemma AppLogger_init_wf:
  assumes "wf_world w"
  shows "wf_world (snd (AppLogger_init env name b now w))"
proof -
  let ?c = "logger_ref_of name"
  let ?w3 = "addHandler ?c console_handler
                  (update_logger ?c (\<lambda>l. l\<lparr>l_handlers := []\<rparr>)
                     (update_logger ?c (\<lambda>l. l\<lparr>l_level := levelno DEBUG\<rparr>) (snd (getLogger name w))))"
  have w3: "wf_except {} ?w3"
    using getLogger_wf [OF assms, of name] by (simp add: update_logger_wf wf_world_def)
  obtain r1 w4 where m: "mkdir_logs env ?w3 = (r1, w4)" by (cases "mkdir_logs env ?w3")
  obtain r2 w5 where p: "open_append env (log_file name now) w4 = (r2, w5)"
    by (cases "open_append env (log_file name now) w4")
  have e4: "w4 = snd (mkdir_logs env ?w3)" by (simp only: m snd_conv)
  have e5: "w5 = snd (open_append env (log_file name now) w4)" by (simp only: p snd_conv)
  have w4: "wf_except {} w4" unfolding e4 using w3 by (simp only: mkdir_logs_wf)
  have w5: "wf_except {} w5" unfolding e5 using w4 by (simp only: open_append_wf)
  show ?thesis
    unfolding AppLogger_init_unfold Let_def wf_world_def
    using m p w3 w4 w5
    by (cases r1; cases r2; cases b) simp_all
qed

lemma construct_all_wf: "wf_world w \<Longrightarrow> wf_world (construct_all env cs w)"
  unfolding construct_all_def
  by (induction cs arbitrary: w) (auto simp add: AppLogger_init_wf)

lemma empty_world_wf: "wf_world empty_world"
  by (simp add: wf_world_def wf_except_def empty_world_def)

subsection \<open>The walk along the ancestors ends\<close>

lemma lineage_Root: "wf_world w \<Longrightarrow> lineage w Root = Some [Root]"
  by (subst lineage.simps) (simp add: wf_world_def wf_except_def the_logger.simps)

lemma lineage_Named: "wf_world w \<Longrightarrow> \<exists>rs. lineage w (Named n) = Some (Named n # rs)"
proof (induction "length n" arbitrary: n rule: less_induct)
  case less
  show ?case
  proof (cases "l_parent (the_logger w (Named n))")
    case None
    then show ?thesis by (subst lineage.simps) simp
  next
    case (Some p)
    have il: "is_logger w n"
    proof (rule ccontr)
      assume "\<not> is_logger w n"
      then have "the_logger w (Named n) = new_logger"
        by (auto simp add: is_logger_def the_logger.simps split: option.splits dict_entry.splits)
      then show False using Some by (simp add: new_logger_def)
    qed
    then have ok: "parent_ok w n (the_logger w (Named n))"
      using less.prems by (simp add: wf_world_def wf_except_alt)
    have "\<exists>rs. lineage w p = Some rs"
    proof (cases p)
      case Root
      then show ?thesis using lineage_Root [OF less.prems] by simp
    next
      case (Named m)
      then have "length m < length n" using ok Some by (simp add: parent_ok_def)
      then show ?thesis using less.hyps [of m] less.prems Named by blast
    qed
    then obtain rs where "lineage w p = Some rs" by blast
    then show ?thesis using Some by (subst lineage.simps) simp
  qed
qed

lemma lineage_total: "wf_world w \<Longrightarrow> \<exists>rs. lineage w c = Some (c # rs)"
  by (cases c) (simp_all add: lineage_Root lineage_Named)

subsection \<open>A call of a logging method\<close>

lemma AppLogger_call_eq:
  "AppLogger_call env a c now w =
     Logger_log env (logger_of a) (call_level c) (call_message c) (call_exc_info c)
       (method_site (call_level c)) now w"
  by (cases c) (simp_all add: AppLogger_debug_def AppLogger_info_def AppLogger_warning_def
      AppLogger_error_def AppLogger_critical_def)

lemma call_record_level [simp]: "r_level (call_record env a c now) = call_level c"
  by (simp add: call_record_def makeRecord_def)

lemma AppLogger_call_lineage:
  assumes "lineage w (logger_of a) = Some rs"
  shows "AppLogger_call env a c now w =
           Some (if logger_enabled w (logger_of a) (call_level c)
                 then handle_all env (effective_handlers (handler_chain w (logger_of a)))
                        (call_record env a c now) w
                 else (Inr (), w))"
  using assms
  by (simp add: AppLogger_call_eq Logger_log_def logger_enabled_def handler_chain_def
      callHandlers_def call_record_def)

lemma handler_chain_split:
  assumes "lineage w c = Some (c # rs)"
  shows "handler_chain w c =
           l_handlers (the_logger w c) @ (if l_propagate (the_logger w c) then chain_handlers w rs else [])"
  using assms by (simp add: handler_chain_def chain_handlers_def)

lemma DEBUG_least: "levelno DEBUG \<le> levelno lv"
  by (cases lv) simp_all

lemma enabled_at_DEBUG:
  assumes "lineage w c = Some (c # rs)" and "l_level (the_logger w c) = levelno DEBUG"
  shows "logger_enabled w c lv"
  using assms DEBUG_least [of lv] by (simp add: logger_enabled_def isEnabledFor_def)

subsection \<open>Handlers that raise\<close>





lemma handle_all_no_failure:
  assumes "\<forall>h\<in>set hs. sink_raises env h r = None"
  shows "handle_all env hs r w =
           (Inr (), fold (\<lambda>h. deliver h r) (filter (\<lambda>h. h_level h \<le> levelno (r_level r)) hs) w)"
  using assms
  by (induction hs arbitrary: w) (simp_all add: emit_def deliver_def)


subsection \<open>Delivery by level\<close>

lemma stream_content_write:
  "stream_content (stream_write s txt w) s' =
     (if s' = s then stream_content w s @ txt else stream_content w s')"
  by (cases s; cases s') (auto simp add: stream_content_def stream_write_def)

lemma fold_deliver_stream:
  "stream_content (fold (\<lambda>h. deliver h r) hs w) s =
     stream_content w s @ concat (map (line_of r) (filter (\<lambda>h. h_stream h = s) hs))"
  by (induction hs arbitrary: w) (simp_all add: deliver_def line_of_def stream_content_write)


lemma init_result:
  assumes "AppLogger_init env name b t0 w0 = (Inr a, w)"
  shows "a = AppLogger (logger_ref_of name)"
    and "l_handlers (the_logger w (logger_of a)) = console_handler # (if b then [file_handler name t0] else [])"
    and "l_level (the_logger w (logger_of a)) = levelno DEBUG"
    and "ref_exists w (logger_of a)"
proof -
  have f: "fst (AppLogger_init env name b t0 w0) = Inr a" and s: "snd (AppLogger_init env name b t0 w0) = w"
    using assms by simp_all
  show a: "a = AppLogger (logger_ref_of name)"
    using f unfolding AppLogger_init_unfold Let_def
    by (auto split: if_splits prod.splits sum.splits)
  show "l_handlers (the_logger w (logger_of a)) = console_handler # (if b then [file_handler name t0] else [])"
    using AppLogger_init_logger(1) [of env name b t0 w0] f s a by simp
  show "l_level (the_logger w (logger_of a)) = levelno DEBUG"
    using AppLogger_init_logger(1) [of env name b t0 w0] s a by simp
  show "ref_exists w (logger_of a)"
    using AppLogger_init_logger(2) [of env name b t0 w0] s a by simp
qed

lemma no_failure_call:
  assumes wf: "wf_world w0"
    and i: "AppLogger_init env name b t0 w0 = (Inr a, w)"
    and nf: "\<forall>h\<in>set (handler_chain w (logger_of a)). sink_raises env h (call_record env a c now) = None"
  shows "AppLogger_call env a c now w =
           Some (Inr (), fold (\<lambda>h. deliver h (call_record env a c now))
                      (filter (\<lambda>h. h_level h \<le> levelno (call_level c)) (handler_chain w (logger_of a))) w)"
    and "\<exists>inherited. handler_chain w (logger_of a)
           = console_handler # (if b then [file_handler name t0] else []) @ inherited"
proof -
  note r = init_result [OF i]
  have "wf_world w" using AppLogger_init_wf [OF wf, of env name b t0] i by simp
  then obtain rs where l: "lineage w (logger_of a) = Some (logger_of a # rs)"
    using lineage_total by blast
  have en: "logger_enabled w (logger_of a) (call_level c)"
    using l r(3) by (rule enabled_at_DEBUG)
  have ch: "handler_chain w (logger_of a) =
      (console_handler # (if b then [file_handler name t0] else [])) @
      (if l_propagate (the_logger w (logger_of a)) then chain_handlers w rs else [])"
    using handler_chain_split [OF l] r(2) by simp
  then show "\<exists>inherited. handler_chain w (logger_of a)
           = console_handler # (if b then [file_handler name t0] else []) @ inherited"
    by auto
  have ne: "effective_handlers (handler_chain w (logger_of a)) = handler_chain w (logger_of a)"
    using ch by (simp add: effective_handlers_def)
  show "AppLogger_call env a c now w =
           Some (Inr (), fold (\<lambda>h. deliver h (call_record env a c now))
                      (filter (\<lambda>h. h_level h \<le> levelno (call_level c)) (handler_chain w (logger_of a))) w)"
    using handle_all_no_failure [OF nf, of w] en
    by (simp add: AppLogger_call_lineage [OF l] ne)
qed


subsection \<open>The log file\<close>

lemma digit_no_newline: "k < 10 \<Longrightarrow> ''0123456789'' ! k \<noteq> newline"
proof -
  assume "k < 10"
  then have "''0123456789'' ! k \<in> set ''0123456789''" by (intro nth_mem) simp
  moreover have "newline \<notin> set ''0123456789''" by (simp add: newline_def)
  ultimately show ?thesis by metis
qed

lemma str_nat_no_newline: "newline \<notin> set (str_nat n)"
proof (induction n rule: str_nat.induct)
  case (1 n)
  show ?case
  proof (cases "n < 10")
    case True
    then show ?thesis using digit_no_newline [of n] by (subst str_nat.simps) simp
  next
    case False
    have "n mod 10 < 10" by simp
    then have "''0123456789'' ! (n mod 10) \<noteq> newline" by (rule digit_no_newline)
    then show ?thesis using False "1.IH" by (subst str_nat.simps) simp
  qed
qed

lemma zfill_no_newline: "newline \<notin> set s \<Longrightarrow> newline \<notin> set (zfill w s)"
  by (auto simp add: zfill_def newline_def)

lemmas digits_no_newline =
  str_nat_no_newline [unfolded newline_def] zfill_no_newline [unfolded newline_def]

lemma default_time_no_newline: "newline \<notin> set (strftime default_time_format t)"
  by (simp add: strftime_def default_time_format_def digits_no_newline newline_def)

lemma method_site_no_newline: "newline \<notin> set (fst (method_site lv))"
  by (cases lv) (simp_all add: newline_def)

lemma levelname_no_newline: "newline \<notin> set (levelname lv)"
  by (cases lv) (simp_all add: newline_def)

lemma file_message_newline:
  "newline \<in> set (formatMessage file_format (call_record env a c now)) \<longleftrightarrow> newline \<in> set (call_message c)"
proof -
  have t: "newline \<notin> set (formatTime file_format (call_record env a c now))"
    using default_time_no_newline [unfolded newline_def]
    by (simp add: formatTime_def file_format_def newline_def digits_no_newline)
  show ?thesis
    using t [unfolded newline_def]
      method_site_no_newline [unfolded newline_def] levelname_no_newline [unfolded newline_def]
    by (simp add: formatMessage_def file_format_def call_record_def makeRecord_def newline_def
        digits_no_newline)
qed

lemma file_line_newline:
  "newline \<in> set (format_record file_format (call_record env a c now))
     \<longleftrightarrow> newline \<in> set (call_message c) \<or> (call_exc_info c \<and> exc_text_now env \<noteq> [])"
proof -
  let ?r = "call_record env a c now"
  let ?s = "formatMessage file_format ?r"
  have x: "r_exc_text ?r = (if call_exc_info c then Some (exc_text_now env) else None)"
    by (simp add: call_record_def makeRecord_def)
  show ?thesis
  proof (cases "call_exc_info c \<and> exc_text_now env \<noteq> []")
    case False
    then have "format_record file_format ?r = ?s"
      by (auto simp add: format_record_def x Let_def)
    then show ?thesis using False file_message_newline [of env a c now] by auto
  next
    case True
    define pre where "pre = (if ?s \<noteq> [] \<and> last ?s = newline then ?s else ?s @ [newline])"
    have "newline \<in> set pre"
    proof (cases "?s \<noteq> [] \<and> last ?s = newline")
      case True
      then have "last ?s \<in> set ?s" by (intro last_in_set) simp
      then show ?thesis using True by (simp add: pre_def)
    next
      case False
      then show ?thesis by (auto simp add: pre_def)
    qed
    moreover have "format_record file_format ?r = pre @ exc_text_now env"
      using True by (simp only: format_record_def x Let_def pre_def) simp
    ultimately have "newline \<in> set (format_record file_format ?r)"
      by simp
    then show ?thesis using True by simp
  qed
qed

lemma file_line_count:
  "count_list (format_record file_format (call_record env a c now) @ [newline]) newline = 1
     \<longleftrightarrow> newline \<notin> set (call_message c) \<and> (call_exc_info c \<longrightarrow> exc_text_now env = [])"
proof -
  have "count_list (format_record file_format (call_record env a c now) @ [newline]) newline = 1
          \<longleftrightarrow> newline \<notin> set (format_record file_format (call_record env a c now))"
    by (simp add: count_list_0_iff)
  then show ?thesis using file_line_newline [of env a c now] by blast
qed

lemma log_file_plain:
  assumes "CHR ''/'' \<notin> set name"
  shows "log_file name now = ''logs/'' @ name @ ''_'' @ strftime [TY, Tm, Td] now @ ''.log''"
proof (cases name)
  case Nil
  then show ?thesis by (simp add: log_file_def path_join_def)
next
  case (Cons x xs)
  then have "x \<noteq> CHR ''/''" using assms by auto
  then show ?thesis using Cons by (simp add: log_file_def path_join_def)
qed

lemma addHandler_frame [simp]:
  "logs_dir (addHandler c h w) = logs_dir w"
  "files (addHandler c h w) = files w"
  "stdout (addHandler c h w) = stdout w"
  "stderr (addHandler c h w) = stderr w"
  by (simp_all add: addHandler_def)

lemma init_file_result:
  assumes "AppLogger_init env name True t0 w0 = (Inr a, w)"
  shows "logs_dir w = Directory" and "files w (log_file name t0) \<noteq> None"
proof -
  let ?c = "logger_ref_of name"
  let ?w3 = "addHandler ?c console_handler
                  (update_logger ?c (\<lambda>l. l\<lparr>l_handlers := []\<rparr>)
                     (update_logger ?c (\<lambda>l. l\<lparr>l_level := levelno DEBUG\<rparr>) (snd (getLogger name w0))))"
  obtain r1 w4 where m: "mkdir_logs env ?w3 = (r1, w4)" by (cases "mkdir_logs env ?w3")
  obtain r2 w5 where p: "open_append env (log_file name t0) w4 = (r2, w5)"
    by (cases "open_append env (log_file name t0) w4")
  have res: "r1 = Inr () \<and> r2 = Inr () \<and> w = addHandler ?c (file_handler name t0) w5"
    using assms m p unfolding AppLogger_init_unfold Let_def
    by (cases r1; cases r2) auto
  have d4: "logs_dir w4 = Directory"
    using m res by (auto simp add: mkdir_logs_def split: fs_entry.splits option.splits)
  have d5: "logs_dir w5 = Directory" "files w5 (log_file name t0) \<noteq> None"
    using p res d4 by (auto simp add: open_append_def split: option.splits)
  show "logs_dir w = Directory" "files w (log_file name t0) \<noteq> None"
    using res d5 by simp_all
qed

text \<open>
  C9, as the code has it. After \<open>AppLogger(name, log_to_file=True)\<close> has returned, \<open>logs\<close>
  is a directory; for a name without \<open>/\<close> the log file is \<open>logs/<name>_<YYYYMMDD>.log\<close>,
  it exists, and the logger's file handler writes to it with encoding \<open>utf-8\<close>. When no
  handler raises and the file handler is the only handler on the file among those the
  record meets, every call of a logging method appends the formatted record and one line
  break to the file. That text is one line if and only if the message contains no line
  break and no exception text is appended, which is when the call passes no \<open>exc_info\<close>
  or the exception text is empty; otherwise it is more than one line.
\<close>

theorem log_file_written:
  assumes "wf_world w0"
    and "AppLogger_init env name True t0 w0 = (Inr a, w)"
    and "CHR ''/'' \<notin> set name"
    and "\<forall>h\<in>set (handler_chain w (logger_of a)). sink_raises env h (call_record env a c now) = None"
    and "filter (\<lambda>h. h_stream h = File_stream (log_file name t0)) (handler_chain w (logger_of a))
           = [file_handler name t0]"
  shows "logs_dir w = Directory \<and>
         log_file name t0 = ''logs/'' @ name @ ''_'' @ strftime [TY, Tm, Td] t0 @ ''.log'' \<and>
         files w (log_file name t0) \<noteq> None \<and>
         file_handler name t0 \<in> set (l_handlers (the_logger w (logger_of a))) \<and>
         h_stream (file_handler name t0) = File_stream (log_file name t0) \<and>
         h_encoding (file_handler name t0) = Some ''utf-8'' \<and>
         (\<exists>w'. AppLogger_call env a c now w = Some (Inr (), w') \<and>
            stream_content w' (File_stream (log_file name t0))
              = stream_content w (File_stream (log_file name t0))
                  @ format_record file_format (call_record env a c now) @ [newline]) \<and>
         (count_list (format_record file_format (call_record env a c now) @ [newline]) newline = 1
            \<longleftrightarrow> newline \<notin> set (call_message c) \<and> (call_exc_info c \<longrightarrow> exc_text_now env = [])) \<and>
         1 \<le> count_list (format_record file_format (call_record env a c now) @ [newline]) newline"
proof -
  let ?r = "call_record env a c now"
  let ?f = "File_stream (log_file name t0)"
  let ?w' = "fold (\<lambda>h. deliver h ?r)
               (filter (\<lambda>h. h_level h \<le> levelno (call_level c)) (handler_chain w (logger_of a))) w"
  note r = init_result [OF assms(2)]
  note call = no_failure_call(1) [OF assms(1) assms(2) assms(4)]
  have "filter (\<lambda>h. h_stream h = ?f)
          (filter (\<lambda>h. h_level h \<le> levelno (call_level c)) (handler_chain w (logger_of a)))
        = filter (\<lambda>h. h_level h \<le> levelno (call_level c))
            (filter (\<lambda>h. h_stream h = ?f) (handler_chain w (logger_of a)))"
    by (simp add: conj_commute)
  also have "\<dots> = [file_handler name t0]"
    using DEBUG_least [of "call_level c"] by (simp add: assms(5)) (simp add: file_handler_def)
  finally have content: "stream_content ?w' ?f = stream_content w ?f @ format_record file_format ?r @ [newline]"
    by (simp add: fold_deliver_stream line_of_def) (simp add: file_handler_def)
  have ex: "\<exists>w'. AppLogger_call env a c now w = Some (Inr (), w') \<and>
            stream_content w' ?f = stream_content w ?f @ format_record file_format ?r @ [newline]"
    using call content by blast
  have mem: "file_handler name t0 \<in> set (l_handlers (the_logger w (logger_of a)))"
    using r(2) by simp
  have fh: "h_stream (file_handler name t0) = ?f" "h_encoding (file_handler name t0) = Some ''utf-8''"
    by (simp_all add: file_handler_def)
  have ge: "1 \<le> count_list (format_record file_format ?r @ [newline]) newline"
    by simp
  show ?thesis
    using init_file_result [OF assms(2)] log_file_plain [OF assms(3)] mem fh ex
      file_line_count [of env a c now] ge
    by blast
qed

subsection \<open>The logger \<open>Shop\<close>\<close>

lemma AppLogger_init_ok:
  assumes "mkdir_raises env = None" and "open_raises env (log_file name now) = None"
    and "logs_dir w \<noteq> Regular_file"
  shows "fst (AppLogger_init env name b now w) = Inr (AppLogger (logger_ref_of name))"
  using assms unfolding AppLogger_init_unfold Let_def
  by (simp add: mkdir_logs_def open_append_def split: fs_entry.splits)

lemma shop_world_init:
  "AppLogger_init log_env_ok ''Shop'' True some_time empty_world = (Inr (AppLogger (Named ''Shop'')), shop_world)"
proof -
  have "fst (AppLogger_init log_env_ok ''Shop'' True some_time empty_world)
          = Inr (AppLogger (logger_ref_of ''Shop''))"
    by (rule AppLogger_init_ok) (simp_all add: log_env_ok_def empty_world_def)
  then show ?thesis by (simp add: shop_world_def prod_eq_iff logger_ref_of_def)
qed


lemma shop_world_empty:
  "stream_content shop_world Stdout = []"
  "stream_content shop_world Stderr = []"
  "stream_content shop_world (File_stream ''logs/Shop_20251004.log'') = []"
  by code_simp+

lemma shop_world_chain:
  "handler_chain shop_world (Named ''Shop'') = [console_handler, file_handler ''Shop'' some_time]"
  by code_simp

lemma shop_log_file: "log_file ''Shop'' some_time = ''logs/Shop_20251004.log''"
  by code_simp

lemma handler_fields:
  "h_level console_handler = levelno INFO" "h_stream console_handler = Stdout"
  "h_formatter console_handler = console_format"
  "h_level (file_handler ''Shop'' some_time) = levelno DEBUG"
  "h_stream (file_handler ''Shop'' some_time) = File_stream ''logs/Shop_20251004.log''"
  "h_formatter (file_handler ''Shop'' some_time) = file_format"
  by (simp_all add: console_handler_def file_handler_def shop_log_file)


text \<open>After \<open>AppLogger("a", False)\<close> and \<open>AppLogger("a.b", False)\<close> the logger \<open>a\<close> is the
  parent of \<open>a.b\<close>: an \<open>INFO\<close> call on \<open>a.b\<close> meets the console handlers of both and puts
  two lines on the console.\<close>

lemma record_reaches_handlers_of_parent:
  "l_parent (the_logger nested_world (Named ''a.b'')) = Some (Named ''a'') \<and>
   handler_chain nested_world (Named ''a.b'') = [console_handler, console_handler] \<and>
   (\<exists>w'. AppLogger_call log_env_ok (AppLogger (Named ''a.b'')) (Info ''hello'') some_time nested_world
            = Some (Inr (), w') \<and>
      stream_content w' Stdout
        = ''09:05:07 [INFO] hello'' @ [newline] @ ''09:05:07 [INFO] hello'' @ [newline])"
proof -
  have p: "l_parent (the_logger nested_world (Named ''a.b'')) = Some (Named ''a'')"
    by code_simp
  have c: "handler_chain nested_world (Named ''a.b'') = [console_handler, console_handler]"
    by code_simp
  have r: "map_option fst (AppLogger_call log_env_ok (AppLogger (Named ''a.b'')) (Info ''hello'') some_time nested_world)
             = Some (Inr ())"
    by code_simp
  have s: "map_option (\<lambda>x. stream_content (snd x) Stdout)
             (AppLogger_call log_env_ok (AppLogger (Named ''a.b'')) (Info ''hello'') some_time nested_world)
             = Some (''09:05:07 [INFO] hello'' @ [newline] @ ''09:05:07 [INFO] hello'' @ [newline])"
    by code_simp
  from r s have "\<exists>w'. AppLogger_call log_env_ok (AppLogger (Named ''a.b'')) (Info ''hello'') some_time nested_world
            = Some (Inr (), w') \<and>
      stream_content w' Stdout
        = ''09:05:07 [INFO] hello'' @ [newline] @ ''09:05:07 [INFO] hello'' @ [newline]"
    by (cases "AppLogger_call log_env_ok (AppLogger (Named ''a.b'')) (Info ''hello'') some_time nested_world")
      auto
  then show ?thesis using p c by blast
qed



theorem log_file_written_witness:
  "wf_world empty_world \<and>
   AppLogger_init log_env_ok ''Shop'' True some_time empty_world = (Inr (AppLogger (Named ''Shop'')), shop_world) \<and>
   CHR ''/'' \<notin> set ''Shop'' \<and>
   handler_chain shop_world (Named ''Shop'') = [console_handler, file_handler ''Shop'' some_time] \<and>
   logs_dir empty_world = Missing \<and> logs_dir shop_world = Directory \<and>
   log_file ''Shop'' some_time = ''logs/Shop_20251004.log'' \<and>
   \<not> call_exc_info (Info ''hello'') \<and> newline \<notin> set (call_message (Info ''hello'')) \<and>
   (\<exists>w'. AppLogger_call log_env_ok (AppLogger (Named ''Shop'')) (Info ''hello'') some_time shop_world
            = Some (Inr (), w') \<and>
      stream_content w' (File_stream ''logs/Shop_20251004.log'')
        = ''2025-10-04 09:05:07,042 [INFO] info:172 - hello'' @ [newline]) \<and>
   count_list (''2025-10-04 09:05:07,042 [INFO] info:172 - hello'' @ [newline]) newline = 1"
proof -
  let ?a = "AppLogger (Named ''Shop'')"
  have sl: "CHR ''/'' \<notin> set ''Shop''" by simp
  have nf: "\<forall>h\<in>set (handler_chain shop_world (logger_of ?a)).
              sink_raises log_env_ok h (call_record log_env_ok ?a (Info ''hello'') some_time) = None"
    by (simp add: log_env_ok_def)
  have one: "filter (\<lambda>h. h_stream h = File_stream (log_file ''Shop'' some_time))
               (handler_chain shop_world (logger_of ?a)) = [file_handler ''Shop'' some_time]"
    by (simp add: shop_world_chain handler_fields shop_log_file)
  note t = log_file_written [OF empty_world_wf shop_world_init sl nf one]
  have m: "logs_dir empty_world = Missing" by (simp add: empty_world_def)
  have x: "\<not> call_exc_info (Info ''hello'')" "newline \<notin> set (call_message (Info ''hello''))"
    by (simp_all add: newline_def)
  have f: "format_record file_format (call_record log_env_ok ?a (Info ''hello'') some_time)
              = ''2025-10-04 09:05:07,042 [INFO] info:172 - hello''"
    by code_simp
  have d: "logs_dir shop_world = Directory" using t by blast
  have ex: "\<exists>w'. AppLogger_call log_env_ok ?a (Info ''hello'') some_time shop_world = Some (Inr (), w') \<and>
      stream_content w' (File_stream ''logs/Shop_20251004.log'')
        = ''2025-10-04 09:05:07,042 [INFO] info:172 - hello'' @ [newline]"
    using t by (simp add: f shop_log_file shop_world_empty)
  have cnt: "count_list (''2025-10-04 09:05:07,042 [INFO] info:172 - hello'' @ [newline]) newline = 1"
    using t x by (simp add: f)
  show ?thesis
    using empty_world_wf shop_world_init sl shop_world_chain m d shop_log_file x ex cnt
    by (intro conjI)
qed

text \<open>One record whose message contains a line break takes two lines of the file.\<close>

theorem record_with_line_break_spans_two_lines:
  "AppLogger_init log_env_ok ''Shop'' True some_time empty_world = (Inr (AppLogger (Named ''Shop'')), shop_world) \<and>
   stream_content shop_world (File_stream ''logs/Shop_20251004.log'') = [] \<and>
   (\<exists>w'. AppLogger_call log_env_ok (AppLogger (Named ''Shop'')) (Info two_lines) some_time shop_world
            = Some (Inr (), w') \<and>
      stream_content w' (File_stream ''logs/Shop_20251004.log'')
        = ''2025-10-04 09:05:07,042 [INFO] info:172 - one'' @ [newline] @ ''two'' @ [newline] \<and>
      count_list (stream_content w' (File_stream ''logs/Shop_20251004.log'')) newline = 2)"
proof -
  let ?call = "AppLogger_call log_env_ok (AppLogger (Named ''Shop'')) (Info two_lines) some_time shop_world"
  have r: "map_option fst ?call = Some (Inr ())"
    by code_simp
  have b: "map_option (\<lambda>x. stream_content (snd x) (File_stream ''logs/Shop_20251004.log'')) ?call
     = Some (''2025-10-04 09:05:07,042 [INFO] info:172 - one'' @ [newline] @ ''two'' @ [newline])"
    by code_simp
  have c: "count_list (''2025-10-04 09:05:07,042 [INFO] info:172 - one'' @ [newline] @ ''two'' @ [newline]) newline = 2"
    by (simp add: newline_def)
  have ex: "\<exists>w'. ?call = Some (Inr (), w') \<and>
      stream_content w' (File_stream ''logs/Shop_20251004.log'')
        = ''2025-10-04 09:05:07,042 [INFO] info:172 - one'' @ [newline] @ ''two'' @ [newline] \<and>
      count_list (stream_content w' (File_stream ''logs/Shop_20251004.log'')) newline = 2"
    using r b c by (cases ?call) auto
  show ?thesis
    using shop_world_init shop_world_empty(3) ex by (intro conjI)
qed

section \<open>Properties of the shop\<close>

subsection \<open>The decorated methods\<close>

text \<open>
  C8. The claim is that \<open>make_daifuku(count)\<close> and \<open>sell(count, price)\<close> return \<open>False\<close>
  on a count that is not positive, and \<open>sell\<close> on a count above the stock. The code does
  not: \<open>@log_function_call\<close> is written without its argument, so each of the two class
  attributes is the closure \<open>decorator\<close>, and a call on an instance passes the instance
  and the arguments to a function of one parameter. Every such call raises \<open>TypeError\<close>
  and leaves the shop as it was.
\<close>

theorem decorated_methods_raise_TypeError:
  "call_method DaifukuShop_make_daifuku [Int_value count] s = (Inl TypeError, s) \<and>
   call_method DaifukuShop_sell [Int_value count, Float_value price] s = (Inl TypeError, s) \<and>
   call_method DaifukuShop_sell [Int_value count, Int_value n] s = (Inl TypeError, s)"
  by (simp add: call_method_def DaifukuShop_make_daifuku_def DaifukuShop_sell_def
      log_function_call_def)

text \<open>The functions under the decorator lines do what the claim says: they return
  \<open>False\<close>, log one line, and leave stock and sales alone.\<close>

lemma shop_log_fields [simp]:
  "stock (shop_log lv m s) = stock s" "sales (shop_log lv m s) = sales s"
  by (simp_all add: shop_log_def)

lemma make_daifuku_rejects:
  "count \<le> 0 \<Longrightarrow> make_daifuku count s = (False, shop_log WARNING (Invalid_count count) s)"
  by (simp add: make_daifuku_def)

lemma sell_rejects:
  "count \<le> 0 \<Longrightarrow> sell count price s = (False, shop_log WARNING (Invalid_sale_count count) s)"
  "0 < count \<Longrightarrow> stock s < count \<Longrightarrow>
     sell count price s = (False, shop_log ERROR (Out_of_stock count (stock s)) s)"
  by (simp_all add: sell_def)

subsection \<open>Stock and sales\<close>

lemma make_daifuku_stock:
  "stock (snd (make_daifuku c s)) = (if 0 < c then stock s + c else stock s)"
  "sales (snd (make_daifuku c s)) = sales s"
  by (simp_all add: make_daifuku_def Let_def)

lemma sell_stock:
  "stock (snd (sell c p s)) = (if 0 < c \<and> c \<le> stock s then stock s - c else stock s)"
  "sales (snd (sell c p s)) = (if 0 < c \<and> c \<le> stock s then sales s + of_int c * p else sales s)"
  by (simp_all add: sell_def Let_def)

lemma call_method_snd [simp]:
  "snd (call_method DaifukuShop_make_daifuku [Int_value c] s) = s"
  "snd (call_method DaifukuShop_sell [Int_value c, Float_value p] s) = s"
  by (simp_all add: call_method_def DaifukuShop_make_daifuku_def DaifukuShop_sell_def
      log_function_call_def)

lemma close_shop_fields [simp]:
  "stock (close_shop s) = stock s" "sales (close_shop s) = sales s"
  by (simp_all add: close_shop_def)

lemma apply_op_inv:
  assumes "0 \<le> stock s" "0 \<le> sales s" "0 \<le> op_price op"
  shows "0 \<le> stock (apply_op op s) \<and> 0 \<le> sales (apply_op op s)"
  using assms by (cases op) (simp_all add: make_daifuku_stock sell_stock)

lemma run_ops_inv:
  "0 \<le> stock s \<Longrightarrow> 0 \<le> sales s \<Longrightarrow> \<forall>op\<in>set ops. 0 \<le> op_price op \<Longrightarrow>
   0 \<le> stock (run_ops ops s) \<and> 0 \<le> sales (run_ops ops s)"
  unfolding run_ops_def
proof (induction ops arbitrary: s)
  case Nil
  then show ?case by simp
next
  case (Cons op ops)
  have "0 \<le> stock (apply_op op s) \<and> 0 \<le> sales (apply_op op s)"
    using Cons.prems by (intro apply_op_inv) simp_all
  then show ?case using Cons.IH Cons.prems by simp
qed

lemma DaifukuShop_init_fields:
  "fst (DaifukuShop_init env name now w) = Inr s0 \<Longrightarrow> stock s0 = 0 \<and> sales s0 = 0"
  by (auto simp add: DaifukuShop_init_def split: prod.splits sum.splits)

text \<open>
  C10. A shop starts with stock 0 and sales 0. Whatever operations follow, with prices
  that are not negative, stock and sales are never negative. One operation changes the
  stock only by running the body of \<open>make_daifuku\<close> with a positive count, which adds it,
  or the body of \<open>sell\<close> with a positive count that the stock covers, which subtracts it.
  The operations are the calls of the two methods through the class, \<open>close_shop\<close>, and
  the two bodies run directly.
\<close>

theorem stock_and_sales_never_negative:
  assumes "fst (DaifukuShop_init env name now w) = Inr s0"
    and "\<forall>op\<in>set ops. 0 \<le> op_price op"
  shows "stock s0 = 0 \<and> sales s0 = 0 \<and>
         0 \<le> stock (run_ops ops s0) \<and> 0 \<le> sales (run_ops ops s0) \<and>
         (stock (apply_op op s) = stock s \<or>
          (\<exists>c. op = Body_make_daifuku c \<and> 0 < c \<and> stock (apply_op op s) = stock s + c) \<or>
          (\<exists>c p. op = Body_sell c p \<and> 0 < c \<and> c \<le> stock s \<and>
                  stock (apply_op op s) = stock s - c))"
proof -
  have i: "stock s0 = 0 \<and> sales s0 = 0"
    using assms(1) by (rule DaifukuShop_init_fields)
  have r: "0 \<le> stock (run_ops ops s0) \<and> 0 \<le> sales (run_ops ops s0)"
    using i assms(2) by (intro run_ops_inv) simp_all
  have st: "stock (apply_op op s) = stock s \<or>
          (\<exists>c. op = Body_make_daifuku c \<and> 0 < c \<and> stock (apply_op op s) = stock s + c) \<or>
          (\<exists>c p. op = Body_sell c p \<and> 0 < c \<and> c \<le> stock s \<and>
                  stock (apply_op op s) = stock s - c)"
    by (cases op) (simp_all add: make_daifuku_stock sell_stock)
  show ?thesis using i r st by blast
qed

theorem stock_and_sales_never_negative_witness:
  "fst (DaifukuShop_init log_env_ok ''Shop'' some_time empty_world) = Inr shop0 \<and>
   map op_price demo_ops = [0, 300, 300, 300, 300, 0] \<and>
   stock (run_ops demo_ops shop0) = 2 \<and> sales (run_ops demo_ops shop0) = 5400 \<and>
   0 \<le> stock (run_ops demo_ops shop0) \<and> 0 \<le> sales (run_ops demo_ops shop0)"
proof -
  have a: "fst (DaifukuShop_init log_env_ok ''Shop'' some_time empty_world) = Inr shop0"
    using shop_world_init by (simp add: DaifukuShop_init_def shop0_def shop_log_def)
  have b: "\<forall>op\<in>set demo_ops. 0 \<le> op_price op" by (simp add: demo_ops_def)
  have c: "stock (run_ops demo_ops shop0) = 2" "sales (run_ops demo_ops shop0) = 5400"
    by (simp_all add: demo_ops_def run_ops_def shop0_def make_daifuku_stock sell_stock)
  have d: "map op_price demo_ops = [0, 300, 300, 300, 300, 0]" by (simp add: demo_ops_def)
  show ?thesis
    using a c d stock_and_sales_never_negative [OF a b] by simp
qed

end
